theory Spec2Isabelle
  imports Main "HOL-Library.AList" "HOL-Library.Sublist"
begin

section \<open>Values\<close>

text \<open>
  The script \<^verbatim>\<open>download_inaturalist_images.py\<close> handles the values that
  \<^verbatim>\<open>requests.get(url).json()\<close> and \<^verbatim>\<open>pd.read_csv\<close> hand to it. A JSON object
  is a Python dict with string keys; it is kept as an association list in insertion
  order. A character of a \<^typ>\<open>string\<close> stands for one code point of a Python
  \<^verbatim>\<open>str\<close>. A float is kept as the text that \<^verbatim>\<open>str\<close> prints for it.
\<close>

datatype pyval =
    PNone
  | PBool bool
  | PInt int
  | PFloat string
  | PStr string
  | PList "pyval list"
  | PDict "(string \<times> pyval) list"

type_synonym pydict = "(string \<times> pyval) list"

datatype error =
    AttributeError
  | TypeError
  | ValueError
  | KeyError
  | RequestError    \<comment> \<open>any exception of \<^verbatim>\<open>requests.get(url).json()\<close>\<close>
  | ReadError       \<comment> \<open>an exception of \<^verbatim>\<open>pd.read_csv\<close> other than FileNotFoundError\<close>
  | RetrieveError   \<comment> \<open>any exception of \<^verbatim>\<open>urllib.request.urlretrieve\<close>\<close>
  | WriteError      \<comment> \<open>any exception of \<^verbatim>\<open>to_csv\<close>\<close>
  | Unsupported     \<comment> \<open>a dict key that is not a string: outside this model\<close>

subsection \<open>Truth value and text of a value\<close>

fun truthy :: "pyval \<Rightarrow> bool" where
  "truthy PNone = False"
| "truthy (PBool b) = b"
| "truthy (PInt i) = (i \<noteq> 0)"
| "truthy (PFloat t) = (t \<noteq> ''0.0'' \<and> t \<noteq> ''-0.0'')"
| "truthy (PStr s) = (s \<noteq> [])"
| "truthy (PList xs) = (xs \<noteq> [])"
| "truthy (PDict d) = (d \<noteq> [])"

fun str_nat :: "nat \<Rightarrow> string" where
  "str_nat n =
     (if n < 10 then [''0123456789'' ! n]
      else str_nat (n div 10) @ [''0123456789'' ! (n mod 10)])"

declare str_nat.simps [simp del]

definition str_int :: "int \<Rightarrow> string" where
  "str_int i = (if i < 0 then ''-'' @ str_nat (nat (- i)) else str_nat (nat i))"

text \<open>
  \<^verbatim>\<open>"{}".format(v)\<close> puts \<^verbatim>\<open>str(v)\<close>. The text of a list or of a dict is its
  \<^verbatim>\<open>repr\<close>, which is not spelled out here: it is the parameter \<open>repr\<close>.
\<close>

fun py_str :: "(pyval \<Rightarrow> string) \<Rightarrow> pyval \<Rightarrow> string" where
  "py_str repr PNone = ''None''"
| "py_str repr (PBool b) = (if b then ''True'' else ''False'')"
| "py_str repr (PInt i) = str_int i"
| "py_str repr (PFloat t) = t"
| "py_str repr (PStr s) = s"
| "py_str repr (PList xs) = repr (PList xs)"
| "py_str repr (PDict d) = repr (PDict d)"

subsection \<open>\<^verbatim>\<open>str.replace\<close>\<close>

text \<open>
  \<^verbatim>\<open>s.replace(old, new)\<close> scans \<open>s\<close> from the left and replaces every occurrence of
  \<open>old\<close> that does not overlap an occurrence already replaced. An empty \<open>old\<close>
  matches before every character and at the end.
\<close>

function str_replace :: "string \<Rightarrow> string \<Rightarrow> string \<Rightarrow> string" where
  "str_replace old new [] = (if old = [] then new else [])"
| "str_replace old new (c # cs) =
     (if old = [] then new @ c # str_replace old new cs
      else if prefix old (c # cs)
        then new @ str_replace old new (drop (length old) (c # cs))
      else c # str_replace old new cs)"
  by pat_completeness auto
termination
  by (relation "measure (\<lambda>(old, new, s). length s)") auto

subsection \<open>Dicts\<close>

text \<open>\<^verbatim>\<open>d.get(k, default)\<close> on a dict.\<close>

definition dict_get :: "pydict \<Rightarrow> string \<Rightarrow> pyval \<Rightarrow> pyval" where
  "dict_get d k dflt = (case map_of d k of Some v \<Rightarrow> v | None \<Rightarrow> dflt)"

text \<open>
  \<^verbatim>\<open>v.get(k, default)\<close> on any value: only a dict has the method, every other JSON
  value raises AttributeError.
\<close>

fun py_get :: "pyval \<Rightarrow> string \<Rightarrow> pyval \<Rightarrow> error + pyval" where
  "py_get (PDict d) k dflt = Inr (dict_get d k dflt)"
| "py_get _ k dflt = Inl AttributeError"

text \<open>
  \<^verbatim>\<open>for x in v\<close>: a list gives its elements, a dict its keys, a string its
  characters; None, a bool and a number are not iterable (TypeError).
\<close>

fun py_iter :: "pyval \<Rightarrow> error + pyval list" where
  "py_iter (PList xs) = Inr xs"
| "py_iter (PDict d) = Inr (map (\<lambda>kv. PStr (fst kv)) d)"
| "py_iter (PStr s) = Inr (map (\<lambda>c. PStr [c]) s)"
| "py_iter _ = Inl TypeError"

text \<open>
  \<^verbatim>\<open>d.update(x)\<close>. A dict \<open>x\<close> is merged key by key: a key that \<open>d\<close> has keeps its
  place and takes the new value, a new key goes to the end. Any other \<open>x\<close> is read as a
  sequence of key/value pairs: each element must itself be a sequence of length two
  (ValueError otherwise, TypeError when it is not iterable), with a hashable first
  component (a list or a dict is not: TypeError). Python also takes None, a bool or a
  number as a key; the records here have string keys only, and such a pair gives
  \<open>Unsupported\<close>.
\<close>

fun update_pair :: "pyval \<Rightarrow> error + string \<times> pyval" where
  "update_pair (PList [k, v]) =
     (case k of
        PStr s \<Rightarrow> Inr (s, v)
      | PList _ \<Rightarrow> Inl TypeError
      | PDict _ \<Rightarrow> Inl TypeError
      | _ \<Rightarrow> Inl Unsupported)"
| "update_pair (PList _) = Inl ValueError"
| "update_pair (PStr [a, b]) = Inr ([a], PStr [b])"
| "update_pair (PStr _) = Inl ValueError"
| "update_pair (PDict [(k1, _), (k2, _)]) = Inr (k1, PStr k2)"
| "update_pair (PDict _) = Inl ValueError"
| "update_pair _ = Inl TypeError"

fun update_seq :: "pydict \<Rightarrow> pyval list \<Rightarrow> error + pydict" where
  "update_seq d [] = Inr d"
| "update_seq d (x # xs) =
     (case update_pair x of
        Inl e \<Rightarrow> Inl e
      | Inr (k, v) \<Rightarrow> update_seq (AList.update k v d) xs)"

fun dict_update :: "pydict \<Rightarrow> pyval \<Rightarrow> error + pydict" where
  "dict_update d (PDict kvs) = Inr (fold (\<lambda>(k, v). AList.update k v) kvs d)"
| "dict_update d (PList xs) = update_seq d xs"
| "dict_update d (PStr s) = update_seq d (map (\<lambda>c. PStr [c]) s)"
| "dict_update d _ = Inl TypeError"

section \<open>The photo record of one API entry (lines 41 to 43)\<close>

text \<open>
  \<^verbatim>\<open>photo_data = {'observation_id': photo.get('observation_id', None)}\<close>,
  \<^verbatim>\<open>photo_data.update(photo.get('photo', {}))\<close>,
  \<^verbatim>\<open>photo_data['original_size_url'] =
     photo_data.get('large_url', '').replace('large', 'original')\<close>.
  Only a string has \<^verbatim>\<open>replace\<close>: any other value under \<^verbatim>\<open>large_url\<close> raises
  AttributeError.
\<close>

fun original_size_url :: "pyval \<Rightarrow> error + pyval" where
  "original_size_url (PStr u) = Inr (PStr (str_replace ''large'' ''original'' u))"
| "original_size_url _ = Inl AttributeError"

definition photo_data :: "pyval \<Rightarrow> error + pydict" where
  "photo_data photo =
     (case py_get photo ''observation_id'' PNone of
        Inl e \<Rightarrow> Inl e
      | Inr oid \<Rightarrow>
         (case py_get photo ''photo'' (PDict []) of
            Inl e \<Rightarrow> Inl e
          | Inr nested \<Rightarrow>
             (case dict_update [(''observation_id'', oid)] nested of
                Inl e \<Rightarrow> Inl e
              | Inr merged \<Rightarrow>
                 (case original_size_url (dict_get merged ''large_url'' (PStr '''')) of
                    Inl e \<Rightarrow> Inl e
                  | Inr u \<Rightarrow> Inr (AList.update ''original_size_url'' u merged)))))"

section \<open>The world outside the script\<close>

text \<open>
  What the run takes from outside is collected in \<open>env\<close>:
  \<^item> \<open>read_csv\<close>: the outcome of \<^verbatim>\<open>pd.read_csv('observations.csv')\<close>; a parsed table
    is the list of its columns, each with its values in file order;
  \<^item> \<open>get_json\<close>: the answer to the \<open>n\<close>-th call of \<^verbatim>\<open>requests.get(url).json()\<close>,
    \<open>None\<close> when the call raises;
  \<^item> \<open>url_content\<close>: what the \<open>n\<close>-th call of \<^verbatim>\<open>urlretrieve\<close> gets from its URL:
    nothing (the URL cannot be opened), a part of the content before the transfer breaks
    off, or the whole content;
  \<^item> \<open>open_file\<close>: whether the \<open>n\<close>-th call of \<^verbatim>\<open>urlretrieve\<close> can open its file name
    for writing (it cannot, for one, when the name has a slash after \<^verbatim>\<open>images/\<close> and
    no such directory exists);
  \<^item> \<open>convert_column\<close>: the conversion pandas applies to each column of a new frame: from
    the values of the column, top to bottom (\<open>None\<close> where a record has no such key), to
    the value kept at position \<open>i\<close> (integers become floats next to a missing value, a
    missing value becomes NaN, and so on; \<open>None\<close> stands for NaN);
  \<^item> \<open>to_csv\<close>: whether \<^verbatim>\<open>to_csv\<close> can write a table: it does, or it raises before
    the file is opened, or it raises after the file has been opened and leaves it
    incomplete;
  \<^item> \<open>repr\<close>: the \<^verbatim>\<open>repr\<close> of lists and dicts.
\<close>

datatype csv_read = FileNotFound | ReadFailed | Frame "(string \<times> pyval list) list"

datatype fetch = NoAnswer | Broken string | Content string

datatype write_outcome = Written | NotOpened | Incomplete

record table =
  columns :: "string list"
  rows :: "pyval option list list"

record env =
  read_csv :: csv_read
  get_json :: "nat \<Rightarrow> string \<Rightarrow> pyval option"
  url_content :: "nat \<Rightarrow> string \<Rightarrow> fetch"
  open_file :: "nat \<Rightarrow> string \<Rightarrow> bool"
  convert_column :: "pyval option list \<Rightarrow> nat \<Rightarrow> pyval option"
  to_csv :: "table \<Rightarrow> write_outcome"
  repr :: "pyval \<Rightarrow> string"

text \<open>
  What the run changes is the \<open>state\<close>: the lines printed, the URLs requested from the
  API, the seconds slept, the file \<^verbatim>\<open>image_metadata.csv\<close> (absent, holding a table,
  or left incomplete by a write that failed), what the name \<^verbatim>\<open>images\<close> is in the
  working directory, the files below it (path to content), and the calls of
  \<^verbatim>\<open>urlretrieve\<close> (URL and file name). \<open>visited\<close> is a history variable: the records
  the download loop has taken up, in order. A table is its header and its rows. How
  \<^verbatim>\<open>to_csv\<close> prints a cell is not modelled.
\<close>

datatype entry = Absent | Directory | RegularFile

datatype csv_file = NoFile | Saved table | Damaged

record state =
  stdout :: "string list"
  requested :: "string list"
  slept :: nat
  metadata_csv :: csv_file
  images_dir :: entry
  image_files :: "string \<Rightarrow> string option"
  retrieved :: "(string \<times> string) list"
  visited :: "pydict list"

datatype 'a result = Return 'a | Exited | Raised error

definition print :: "string \<Rightarrow> state \<Rightarrow> state" where
  "print line st = st\<lparr>stdout := stdout st @ [line]\<rparr>"

definition sleep1 :: "state \<Rightarrow> state" where
  "sleep1 st = st\<lparr>slept := slept st + 1\<rparr>"

text \<open>Sequencing: what follows a statement runs only when the statement returns.\<close>

fun then_do ::
  "'a result \<times> state \<Rightarrow> ('a \<Rightarrow> state \<Rightarrow> 'b result \<times> state) \<Rightarrow> 'b result \<times> state" where
  "then_do (Return x, st) f = f x st"
| "then_do (Exited, st) f = (Exited, st)"
| "then_do (Raised e, st) f = (Raised e, st)"

section \<open>Reading the observations (lines 24 to 29)\<close>

definition load_observations :: "env \<Rightarrow> state \<Rightarrow> pyval list result \<times> state" where
  "load_observations env st =
     (case read_csv env of
        FileNotFound \<Rightarrow>
          (Exited, print ''Could not find observations.csv. Program is now quitting.'' st)
      | ReadFailed \<Rightarrow> (Raised ReadError, st)
      | Frame cols \<Rightarrow>
          (case map_of cols ''id'' of
             None \<Rightarrow> (Raised KeyError, st)
           | Some obs_ids \<Rightarrow> (Return obs_ids, st)))"

section \<open>Retrieving the photo data (lines 34 to 45)\<close>

definition observation_url :: "(pyval \<Rightarrow> string) \<Rightarrow> pyval \<Rightarrow> string" where
  "observation_url rp idno =
     ''https://www.inaturalist.org/observations/'' @ py_str rp idno @ ''.json''"

text \<open>The inner loop \<^verbatim>\<open>for photo in photos\<close>, appending to \<open>images\<close>.\<close>

fun photo_records :: "pyval list \<Rightarrow> pydict list \<Rightarrow> error + pydict list" where
  "photo_records [] images = Inr images"
| "photo_records (photo # photos) images =
     (case photo_data photo of
        Inl e \<Rightarrow> Inl e
      | Inr pd \<Rightarrow> photo_records photos (images @ [pd]))"

text \<open>One turn of the outer loop: the request, the inner loop, the sleep.\<close>

definition fetch_observation ::
  "env \<Rightarrow> pyval \<Rightarrow> pydict list \<Rightarrow> state \<Rightarrow> pydict list result \<times> state" where
  "fetch_observation env idno images st =
     (let url = observation_url (repr env) idno;
          st1 = st\<lparr>requested := requested st @ [url]\<rparr>
      in case get_json env (length (requested st)) url of
           None \<Rightarrow> (Raised RequestError, st1)
         | Some r \<Rightarrow>
            (case py_get r ''observation_photos'' (PList []) of
               Inl e \<Rightarrow> (Raised e, st1)
             | Inr photos \<Rightarrow>
                (case py_iter photos of
                   Inl e \<Rightarrow> (Raised e, st1)
                 | Inr ps \<Rightarrow>
                    (case photo_records ps images of
                       Inl e \<Rightarrow> (Raised e, st1)
                     | Inr images' \<Rightarrow> (Return images', sleep1 st1)))))"

fun fetch_loop ::
  "env \<Rightarrow> pyval list \<Rightarrow> pydict list \<Rightarrow> state \<Rightarrow> pydict list result \<times> state" where
  "fetch_loop env [] images st = (Return images, st)"
| "fetch_loop env (idno # ids) images st =
     (case fetch_observation env idno images st of
        (Return images', st') \<Rightarrow> fetch_loop env ids images' st'
      | (Exited, st') \<Rightarrow> (Exited, st')
      | (Raised e, st') \<Rightarrow> (Raised e, st'))"

text \<open>\<^verbatim>\<open>xs[10:20]\<close>: the elements at the indices 10 to 19 that the list has.\<close>

definition slice_10_20 :: "'a list \<Rightarrow> 'a list" where
  "slice_10_20 xs = take (20 - 10) (drop 10 xs)"

definition retrieve_photo_data ::
  "env \<Rightarrow> pyval list \<Rightarrow> state \<Rightarrow> pydict list result \<times> state" where
  "retrieve_photo_data env obs_ids st =
     fetch_loop env (slice_10_20 obs_ids) []
       (print (''Retrieving photo data for '' @ str_nat (length obs_ids) @ '' observations'') st)"

section \<open>Exporting the metadata (lines 48 to 66)\<close>

definition keep_columns :: "string list" where
  "keep_columns =
     [''observation_id'', ''id'', ''created_at'', ''updated_at'',
      ''native_page_url'', ''native_username'', ''license'', ''subtype'',
      ''native_original_image_url'',
      ''license_code'', ''attribution'', ''license_name'', ''license_url'',
      ''type'', ''original_size_url'']"

definition rename_columns :: "(string \<times> string) list" where
  "rename_columns =
     [(''id'', ''photo_id''),
      (''native_page_url'', ''inaturalist_page_url''),
      (''native_username'', ''inaturalist_username''),
      (''native_original_image_url'', ''original_image_url''),
      (''original_size_url'', ''image_url'')]"

text \<open>
  \<^verbatim>\<open>pd.DataFrame(images)\<close> of a list of dicts: the columns are the keys of all the
  records, each at its first appearance; there is one row for each record; and each
  column holds the records' values under its key, in the order of the records, as
  pandas converts them (\<open>conv\<close>).
\<close>

fun first_seen :: "'a list \<Rightarrow> 'a list \<Rightarrow> 'a list" where
  "first_seen seen [] = seen"
| "first_seen seen (x # xs) = first_seen (if x \<in> set seen then seen else seen @ [x]) xs"

definition column_values :: "pydict list \<Rightarrow> string \<Rightarrow> pyval option list" where
  "column_values images c = map (\<lambda>r. map_of r c) images"

definition data_frame ::
  "(pyval option list \<Rightarrow> nat \<Rightarrow> pyval option) \<Rightarrow> pydict list \<Rightarrow> table" where
  "data_frame conv images =
     (let cols = first_seen [] (concat (map (map fst) images))
      in \<lparr>columns = cols,
          rows = map (\<lambda>i. map (\<lambda>c. conv (column_values images c) i) cols)
                   [0..<length images]\<rparr>)"

text \<open>
  \<^verbatim>\<open>df[cols]\<close> with a list of labels: KeyError when a label is not a column of the
  frame, otherwise the frame of these columns, in the order of the list.
\<close>

definition cell :: "table \<Rightarrow> pyval option list \<Rightarrow> string \<Rightarrow> pyval option" where
  "cell df row c = (case map_of (zip (columns df) row) c of Some v \<Rightarrow> v | None \<Rightarrow> None)"

definition select_columns :: "string list \<Rightarrow> table \<Rightarrow> error + table" where
  "select_columns cols df =
     (if list_all (\<lambda>c. c \<in> set (columns df)) cols
      then Inr \<lparr>columns = cols, rows = map (\<lambda>row. map (cell df row) cols) (rows df)\<rparr>
      else Inl KeyError)"

definition rename :: "(string \<times> string) list \<Rightarrow> table \<Rightarrow> table" where
  "rename names df =
     df\<lparr>columns := map (\<lambda>c. case map_of names c of Some n \<Rightarrow> n | None \<Rightarrow> c) (columns df)\<rparr>"

text \<open>
  Lines 48 to 66: the frame, the projection, the renaming, and
  \<^verbatim>\<open>to_csv('image_metadata.csv', index=False)\<close>, which may raise as well.
\<close>

definition export_metadata :: "env \<Rightarrow> pydict list \<Rightarrow> state \<Rightarrow> unit result \<times> state" where
  "export_metadata env images st =
     (let st1 = print (''Data retrieved for '' @ str_nat (length images) @
                       '' photos. Exporting to image_metadata.csv'') st
      in case select_columns keep_columns (data_frame (convert_column env) images) of
           Inl e \<Rightarrow> (Raised e, st1)
         | Inr images_df \<Rightarrow>
             (let renamed = rename rename_columns images_df
              in case to_csv env renamed of
                   Written \<Rightarrow> (Return (), st1\<lparr>metadata_csv := Saved renamed\<rparr>)
                 | NotOpened \<Rightarrow> (Raised WriteError, st1)
                 | Incomplete \<Rightarrow> (Raised WriteError, st1\<lparr>metadata_csv := Damaged\<rparr>)))"

section \<open>Downloading the images (lines 69 to 91)\<close>

text \<open>
  \<^verbatim>\<open>os.mkdir('images')\<close> raises FileExistsError when the name exists, as a
  directory or as anything else; the script catches it.
\<close>

definition make_images_dir :: "state \<Rightarrow> state" where
  "make_images_dir st =
     (case images_dir st of
        Absent \<Rightarrow> print ''Created images directory.'' (st\<lparr>images_dir := Directory\<rparr>)
      | _ \<Rightarrow> print ''Images directory already exists.'' st)"

definition image_name :: "(pyval \<Rightarrow> string) \<Rightarrow> pydict \<Rightarrow> string" where
  "image_name rp img =
     ''images/observation'' @ py_str rp (dict_get img ''observation_id'' (PStr ''Unknown'')) @
     ''_image'' @ py_str rp (dict_get img ''id'' (PStr ''Unknown'')) @ ''.jpg''"

text \<open>\<^verbatim>\<open>image_url = image.get('original_size_url', None)\<close>.\<close>

definition image_url :: "pydict \<Rightarrow> pyval" where
  "image_url img = dict_get img ''original_size_url'' PNone"

text \<open>
  \<^verbatim>\<open>urllib.request.urlretrieve(url, filename)\<close>: a URL that is not a string is a
  TypeError. The URL is opened first; then the file is opened for writing, which needs
  the directory and empties a file of that name; then the content is copied, and what
  has arrived is in the file when the transfer breaks off.
\<close>

fun urlretrieve :: "env \<Rightarrow> pyval \<Rightarrow> string \<Rightarrow> state \<Rightarrow> unit result \<times> state" where
  "urlretrieve env (PStr u) filename st =
     (let n = length (retrieved st);
          st1 = st\<lparr>retrieved := retrieved st @ [(u, filename)]\<rparr>;
          opened = (images_dir st = Directory \<and> open_file env n filename)
      in case url_content env n u of
           NoAnswer \<Rightarrow> (Raised RetrieveError, st1)
         | Broken part \<Rightarrow>
             (if opened
              then (Raised RetrieveError,
                    st1\<lparr>image_files := (image_files st1)(filename \<mapsto> part)\<rparr>)
              else (Raised RetrieveError, st1))
         | Content content \<Rightarrow>
             (if opened
              then (Return (), st1\<lparr>image_files := (image_files st1)(filename \<mapsto> content)\<rparr>)
              else (Raised RetrieveError, st1)))"
| "urlretrieve env _ filename st = (Raised TypeError, st)"

text \<open>One turn of the loop \<^verbatim>\<open>for image in images\<close>; \<open>n_images\<close> is \<^verbatim>\<open>len(images)\<close>.\<close>

definition download_image ::
  "env \<Rightarrow> nat \<Rightarrow> pydict \<Rightarrow> nat \<Rightarrow> state \<Rightarrow> nat result \<times> state" where
  "download_image env n_images img image_counter st =
     (let name = image_name (repr env) img;
          st0 = st\<lparr>visited := visited st @ [img]\<rparr>
      in then_do (if truthy (image_url img) then urlretrieve env (image_url img) name st0
                  else (Return (), st0))
           (\<lambda>_ st1.
              let counter = image_counter + 1;
                  st2 = (if counter mod 10 = 0
                         then print (''Retrieved '' @ str_nat counter @ '' of '' @
                                     str_nat n_images @ '' images'') st1
                         else st1)
              in (Return counter, sleep1 st2)))"

fun download_loop ::
  "env \<Rightarrow> nat \<Rightarrow> pydict list \<Rightarrow> nat \<Rightarrow> state \<Rightarrow> nat result \<times> state" where
  "download_loop env n_images [] image_counter st = (Return image_counter, st)"
| "download_loop env n_images (img # images) image_counter st =
     (case download_image env n_images img image_counter st of
        (Return counter, st') \<Rightarrow> download_loop env n_images images counter st'
      | (Exited, st') \<Rightarrow> (Exited, st')
      | (Raised e, st') \<Rightarrow> (Raised e, st'))"

definition download_images :: "env \<Rightarrow> pydict list \<Rightarrow> state \<Rightarrow> unit result \<times> state" where
  "download_images env images st =
     then_do (download_loop env (length images) images 0
                (print (''Retrieving '' @ str_nat (length images) @ '' images'')
                   (make_images_dir st)))
       (\<lambda>_ st'. (Return (),
          print (''Done, '' @ str_nat (length images) @ '' of '' @
                 str_nat (length images) @ '' images have been retrieved'') st'))"

section \<open>The script\<close>

definition export_and_download :: "env \<Rightarrow> pydict list \<Rightarrow> state \<Rightarrow> unit result \<times> state" where
  "export_and_download env images st =
     then_do (export_metadata env images st) (\<lambda>_ st'. download_images env images st')"

definition main :: "env \<Rightarrow> state \<Rightarrow> unit result \<times> state" where
  "main env st =
     then_do (load_observations env st) (\<lambda>obs_ids st1.
       then_do (retrieve_photo_data env obs_ids st1) (\<lambda>images st2.
         export_and_download env images st2))"

text \<open>The state before a first run in an empty working directory.\<close>

definition fresh_state :: state where
  "fresh_state =
     \<lparr>stdout = [], requested = [], slept = 0, metadata_csv = NoFile, images_dir = Absent,
      image_files = Map.empty, retrieved = [], visited = []\<rparr>"

text \<open>
  To state what the download does: whether \<^verbatim>\<open>original_size_url\<close> of a record is a
  non-empty string, and the text of a string value.
\<close>

definition has_url :: "pydict \<Rightarrow> bool" where
  "has_url img =
     (case map_of img ''original_size_url'' of Some (PStr s) \<Rightarrow> s \<noteq> [] | _ \<Rightarrow> False)"

fun url_text :: "pyval \<Rightarrow> string" where
  "url_text (PStr s) = s"
| "url_text _ = []"

section \<open>An example run\<close>

text \<open>
  A run to try the theorems on: 21 observation ids, 100 to 120; the API answers the
  request for observation 110 with two photos, the second without \<^verbatim>\<open>large_url\<close>, and
  the request for observation 115 with one photo; every other answer has no photos.
  Every field of a photo but the two ids is a string, so that pandas keeps each value
  as it is (\<open>convert_column\<close> returns the value at the position); every URL can be
  fetched and every file written.
\<close>

definition sample_fields :: pydict where
  "sample_fields =
     [(''created_at'', PStr ''2020-05-01''), (''updated_at'', PStr ''2020-05-02''),
      (''native_page_url'', PStr ''https://p''), (''native_username'', PStr ''ann''),
      (''subtype'', PStr ''none''), (''native_original_image_url'', PStr ''https://o''),
      (''license_code'', PStr ''cc-by''), (''attribution'', PStr ''(c) ann''),
      (''license_name'', PStr ''CC BY''), (''license_url'', PStr ''https://l''),
      (''type'', PStr ''LocalPhoto'')]"

definition sample_photo :: "int \<Rightarrow> int \<Rightarrow> pydict \<Rightarrow> pyval" where
  "sample_photo oid pid extra =
     PDict [(''observation_id'', PInt oid),
            (''photo'', PDict ((''id'', PInt pid) # sample_fields @
                               (''license'', PStr ''cc'') # extra))]"

definition sample_record :: "int \<Rightarrow> int \<Rightarrow> pydict \<Rightarrow> pydict" where
  "sample_record oid pid extra =
     (''observation_id'', PInt oid) # (''id'', PInt pid) # sample_fields @
     (''license'', PStr ''cc'') # extra"

definition sample_ids :: "pyval list" where
  "sample_ids = [PInt 100, PInt 101, PInt 102, PInt 103, PInt 104, PInt 105, PInt 106, PInt 107, PInt 108, PInt 109, PInt 110, PInt 111, PInt 112, PInt 113, PInt 114, PInt 115, PInt 116, PInt 117, PInt 118, PInt 119, PInt 120]"

definition sample_get_json :: "string \<Rightarrow> pyval option" where
  "sample_get_json url =
     (if url = ''https://www.inaturalist.org/observations/110.json''
      then Some (PDict [(''observation_photos'',
             PList [sample_photo 110 1 [(''large_url'', PStr ''https://x/large.jpg'')],
                    sample_photo 110 2 []])])
      else if url = ''https://www.inaturalist.org/observations/115.json''
      then Some (PDict [(''observation_photos'',
             PList [sample_photo 115 3 [(''large_url'', PStr ''https://y/large.jpg'')]])])
      else Some (PDict []))"

definition sample_env :: env where
  "sample_env =
     \<lparr>read_csv = Frame [(''observed_on'', []), (''id'', sample_ids)],
      get_json = (\<lambda>n. sample_get_json),
      url_content = (\<lambda>n u. Content (''image at '' @ u)),
      open_file = (\<lambda>n f. True),
      convert_column = (\<lambda>values i. values ! i),
      to_csv = (\<lambda>t. Written),
      repr = (\<lambda>v. [])\<rparr>"

definition sample_images :: "pydict list" where
  "sample_images =
     [sample_record 110 1 [(''large_url'', PStr ''https://x/large.jpg''),
                           (''original_size_url'', PStr ''https://x/original.jpg'')],
      sample_record 110 2 [(''original_size_url'', PStr '''')],
      sample_record 115 3 [(''large_url'', PStr ''https://y/large.jpg''),
                           (''original_size_url'', PStr ''https://y/original.jpg'')]]"

section \<open>Properties of \<^verbatim>\<open>str.replace\<close>\<close>

lemma str_replace_match:
  assumes "old \<noteq> []"
  shows "str_replace old new (old @ z) = new @ str_replace old new z"
proof -
  from assms obtain a as where old: "old = a # as" by (cases old) auto
  have "str_replace old new (a # (as @ z)) =
          new @ str_replace old new (drop (length old) (a # (as @ z)))"
    by (subst str_replace.simps) (simp add: old)
  then show ?thesis by (simp add: old)
qed

lemma str_replace_skip:
  assumes "old \<noteq> []" "\<not> prefix old (c # cs)"
  shows "str_replace old new (c # cs) = c # str_replace old new cs"
  using assms by simp

text \<open>
  A word whose first character does not come back in it cannot start inside a shorter
  text \<open>xs\<close> and run into a copy of itself that follows \<open>xs\<close>.
\<close>

lemma no_border:
  assumes fresh: "hd old \<notin> set (tl old)"
    and xs: "xs \<noteq> []" "length xs < length old"
  shows "\<not> prefix old (xs @ old @ ys)"
proof
  assume "prefix old (xs @ old @ ys)"
  then obtain zs where eq: "xs @ old @ ys = old @ zs"
    by (auto simp: prefix_def)
  from xs obtain a as where old: "old = a # as" by (cases old) auto
  have "(xs @ old @ ys) ! length xs = a"
    by (simp add: old nth_append)
  with eq have "(old @ zs) ! length xs = a" by simp
  with xs have "old ! length xs = a" by (simp add: nth_append)
  moreover from xs obtain n where n: "length xs = Suc n" by (cases xs) auto
  ultimately have "as ! n = a" by (simp add: old)
  moreover from xs n have "n < length as" by (simp add: old)
  ultimately have "a \<in> set as" using nth_mem by metis
  with fresh show False by (simp add: old)
qed

lemma prefix_long:
  assumes "length old \<le> length xs"
  shows "prefix old (xs @ zs) \<longleftrightarrow> prefix old xs"
proof
  assume "prefix old (xs @ zs)"
  moreover have "prefix xs (xs @ zs)" by simp
  ultimately show "prefix old xs"
    using assms by (rule prefix_length_prefix)
next
  assume "prefix old xs"
  then show "prefix old (xs @ zs)" by (rule prefix_prefix)
qed

lemma str_replace_append:
  assumes ne: "old \<noteq> []" and fresh: "hd old \<notin> set (tl old)"
  shows "str_replace old new (x @ old @ y) =
     str_replace old new x @ new @ str_replace old new y"
proof (induction "length x" arbitrary: x rule: less_induct)
  case less
  show ?case
  proof (cases "prefix old x")
    case True
    then obtain x' where x: "x = old @ x'" by (auto simp: prefix_def)
    with ne have "length x' < length x" by simp
    from less [OF this] show ?thesis
      by (simp add: x str_replace_match [OF ne])
  next
    case False
    show ?thesis
    proof (cases x)
      case Nil
      then show ?thesis using str_replace_match [OF ne, of new y] ne by simp
    next
      case (Cons c cs)
      have nb: "\<not> prefix old (x @ old @ y)"
      proof (cases "length old \<le> length x")
        case True
        then show ?thesis using False prefix_long by blast
      next
        case False
        then show ?thesis using no_border [OF fresh, of x y] Cons by simp
      qed
      have "length cs < length x" using Cons by simp
      from less [OF this]
      have IH: "str_replace old new (cs @ old @ y) =
         str_replace old new cs @ new @ str_replace old new y" .
      from nb have "\<not> prefix old (c # (cs @ old @ y))"
        by (simp add: Cons)
      from str_replace_skip [OF ne this]
      have "str_replace old new (x @ old @ y) = c # str_replace old new (cs @ old @ y)"
        by (simp add: Cons)
      also have "\<dots> = (c # str_replace old new cs) @ new @ str_replace old new y"
        by (simp add: IH)
      also have "c # str_replace old new cs = str_replace old new x"
        using False str_replace_skip [OF ne, of c cs new] by (simp add: Cons)
      finally show ?thesis .
    qed
  qed
qed

section \<open>Properties of the photo record\<close>

lemma map_of_fold_update:
  "distinct (map fst kvs) \<Longrightarrow>
     map_of (fold (\<lambda>(k, v). AList.update k v) kvs d) = map_of d ++ map_of kvs"
proof (induction kvs arbitrary: d)
  case Nil
  then show ?case by simp
next
  case (Cons kv kvs)
  obtain k v where kv: "kv = (k, v)" by (cases kv)
  from Cons.prems kv have notin: "map_of kvs k = None" and dist: "distinct (map fst kvs)"
    by (auto simp: map_of_eq_None_iff)
  have "map_of (fold (\<lambda>(k, v). AList.update k v) (kv # kvs) d)
          = map_of (AList.update k v d) ++ map_of kvs"
    using Cons.IH [OF dist] kv by simp
  also have "\<dots> = map_of d ++ map_of (kv # kvs)"
    using notin kv by (auto simp: update_conv' map_add_def fun_eq_iff split: option.splits)
  finally show ?case .
qed

lemma dict_get_merged:
  assumes "distinct (map fst d)"
  shows "dict_get (fold (\<lambda>(k, v). AList.update k v) d base) k dflt =
           dict_get d k (dict_get base k dflt)"
  using map_of_fold_update [OF assms, of base]
  by (simp add: dict_get_def map_add_def split: option.splits)

lemma photo_data_nested:
  assumes "dict_get w ''photo'' (PDict []) = PDict d" and "distinct (map fst d)"
  shows "photo_data (PDict w) =
     (case original_size_url (dict_get d ''large_url'' (PStr '''')) of
        Inl e \<Rightarrow> Inl e
      | Inr u \<Rightarrow> Inr (AList.update ''original_size_url'' u
          (fold (\<lambda>(k, v). AList.update k v) d
             [(''observation_id'', dict_get w ''observation_id'' PNone)])))"
proof -
  have "dict_get (fold (\<lambda>(k, v). AList.update k v) d
           [(''observation_id'', dict_get w ''observation_id'' PNone)]) ''large_url'' (PStr '''')
        = dict_get d ''large_url'' (PStr '''')"
    unfolding dict_get_merged [OF assms(2)] by (simp add: dict_get_def)
  then show ?thesis
    by (simp add: photo_data_def assms(1))
qed

lemma map_of_photo_record:
  assumes "distinct (map fst d)"
  shows "map_of (AList.update ''original_size_url'' u
          (fold (\<lambda>(k, v). AList.update k v) d [(''observation_id'', oid)])) k =
     (if k = ''original_size_url'' then Some u
      else case map_of d k of
             Some v \<Rightarrow> Some v
           | None \<Rightarrow> if k = ''observation_id'' then Some oid else None)"
  using map_of_fold_update [OF assms, of "[(''observation_id'', oid)]"]
  by (simp add: update_conv' map_add_def split: option.splits)



text \<open>
  C9: when the nested \<^verbatim>\<open>photo\<close> object \<open>d\<close> has a key \<^verbatim>\<open>observation_id\<close>, its value
  replaces the one taken from the wrapper; and \<^verbatim>\<open>original_size_url\<close> of the record is
  the derived value \<open>u\<close>, whatever \<open>d\<close> holds under that name.
\<close>

theorem nested_photo_takes_precedence:
  assumes "dict_get w ''photo'' (PDict []) = PDict d" and "distinct (map fst d)"
    and "original_size_url (dict_get d ''large_url'' (PStr '''')) = Inr u"
  shows "\<exists>r. photo_data (PDict w) = Inr r \<and>
           map_of r ''observation_id'' =
             Some (dict_get d ''observation_id'' (dict_get w ''observation_id'' PNone)) \<and>
           map_of r ''original_size_url'' = Some u"
proof -
  have "photo_data (PDict w) =
          Inr (AList.update ''original_size_url'' u
                (fold (\<lambda>(k, v). AList.update k v) d
                   [(''observation_id'', dict_get w ''observation_id'' PNone)]))"
    by (simp add: photo_data_nested [OF assms(1,2)] assms(3))
  then show ?thesis
    by (simp add: map_of_photo_record [OF assms(2)] dict_get_def split: option.splits)
qed

theorem nested_photo_takes_precedence_witness:
  "\<exists>r. photo_data (PDict [(''observation_id'', PInt 7),
           (''photo'', PDict [(''observation_id'', PInt 9),
                              (''original_size_url'', PStr ''zz''),
                              (''large_url'', PStr ''https://x/large.jpg'')])]) = Inr r \<and>
        map_of r ''observation_id'' = Some (PInt 9) \<and>
        map_of r ''original_size_url'' = Some (PStr ''https://x/original.jpg'')"
  using nested_photo_takes_precedence [of
      "[(''observation_id'', PInt 7),
        (''photo'', PDict [(''observation_id'', PInt 9),
                           (''original_size_url'', PStr ''zz''),
                           (''large_url'', PStr ''https://x/large.jpg'')])]"
      "[(''observation_id'', PInt 9), (''original_size_url'', PStr ''zz''),
        (''large_url'', PStr ''https://x/large.jpg'')]"
      "PStr ''https://x/original.jpg''"]
  by (simp add: dict_get_def)

text \<open>
  C10: every occurrence of \<^verbatim>\<open>large\<close> in \<^verbatim>\<open>large_url\<close> is rewritten, wherever it
  stands: for any text \<open>x\<close> before an occurrence and any text \<open>y\<close> after it, the
  occurrence becomes \<^verbatim>\<open>original\<close> and \<open>x\<close> and \<open>y\<close> are rewritten in the same way.
  So a URL with \<^verbatim>\<open>large\<close> in the host, in a directory and in the file name has all
  three rewritten.
\<close>

theorem every_large_replaced:
  "original_size_url (PStr (x @ ''large'' @ y)) =
     Inr (PStr (str_replace ''large'' ''original'' x @ ''original'' @
                str_replace ''large'' ''original'' y)) \<and>
   original_size_url (PStr ''https://large.example/large/large.jpg'') =
     Inr (PStr ''https://original.example/original/original.jpg'')"
proof
  have "str_replace ''large'' ''original'' (x @ ''large'' @ y) =
          str_replace ''large'' ''original'' x @ ''original'' @
          str_replace ''large'' ''original'' y"
    by (rule str_replace_append) simp_all
  then show "original_size_url (PStr (x @ ''large'' @ y)) =
     Inr (PStr (str_replace ''large'' ''original'' x @ ''original'' @
                str_replace ''large'' ''original'' y))"
    by (simp only: original_size_url.simps)
next
  show "original_size_url (PStr ''https://large.example/large/large.jpg'') =
     Inr (PStr ''https://original.example/original/original.jpg'')"
    by simp
qed

section \<open>Properties of the fetch loop\<close>

lemma fetch_observation_requested:
  "requested (snd (fetch_observation env idno images st)) =
     requested st @ [observation_url (repr env) idno]"
  by (simp add: fetch_observation_def Let_def sleep1_def split: option.splits sum.splits)

lemma fetch_loop_requested:
  "\<exists>k\<le>length ids.
     requested (snd (fetch_loop env ids images st)) =
       requested st @ map (observation_url (repr env)) (take k ids) \<and>
     ((\<exists>imgs. fst (fetch_loop env ids images st) = Return imgs) \<longrightarrow> k = length ids)"
proof (induction ids arbitrary: images st)
  case Nil
  then show ?case by simp
next
  case (Cons idno ids)
  obtain r st' where step: "fetch_observation env idno images st = (r, st')"
    by (cases "fetch_observation env idno images st")
  from fetch_observation_requested [of env idno images st] step
  have req: "requested st' = requested st @ [observation_url (repr env) idno]" by simp
  show ?case
  proof (cases r)
    case (Return images')
    from Cons.IH [of images' st'] obtain k where k: "k \<le> length ids"
      "requested (snd (fetch_loop env ids images' st')) =
         requested st' @ map (observation_url (repr env)) (take k ids)"
      "(\<exists>imgs. fst (fetch_loop env ids images' st') = Return imgs) \<longrightarrow> k = length ids"
      by blast
    have "Suc k \<le> length (idno # ids)" using k(1) by simp
    moreover have "requested (snd (fetch_loop env (idno # ids) images st)) =
        requested st @ map (observation_url (repr env)) (take (Suc k) (idno # ids))"
      using step Return k(2) req by simp
    moreover have "(\<exists>imgs. fst (fetch_loop env (idno # ids) images st) = Return imgs) \<longrightarrow>
        Suc k = length (idno # ids)"
      using step Return k(3) by simp
    ultimately show ?thesis by blast
  next
    case Exited
    have "Suc 0 \<le> length (idno # ids)" by simp
    moreover have "requested (snd (fetch_loop env (idno # ids) images st)) =
        requested st @ map (observation_url (repr env)) (take (Suc 0) (idno # ids))"
      using step Exited req by simp
    moreover have "\<not> (\<exists>imgs. fst (fetch_loop env (idno # ids) images st) = Return imgs)"
      using step Exited by simp
    ultimately show ?thesis by blast
  next
    case (Raised e)
    have "Suc 0 \<le> length (idno # ids)" by simp
    moreover have "requested (snd (fetch_loop env (idno # ids) images st)) =
        requested st @ map (observation_url (repr env)) (take (Suc 0) (idno # ids))"
      using step Raised req by simp
    moreover have "\<not> (\<exists>imgs. fst (fetch_loop env (idno # ids) images st) = Return imgs)"
      using step Raised by simp
    ultimately show ?thesis by blast
  qed
qed

lemma take_slice_10_20:
  assumes "20 \<le> length xs" "k \<le> 10"
  shows "take k (slice_10_20 xs) = map (\<lambda>i. xs ! i) [10..<10 + k]"
  using assms by (auto simp: slice_10_20_def intro!: nth_equalityI)

lemma retrieve_photo_data_requested:
  assumes "20 \<le> length obs_ids"
  shows "\<exists>k\<le>10.
     requested (snd (retrieve_photo_data env obs_ids st)) =
       requested st @ map (\<lambda>i. observation_url (repr env) (obs_ids ! i)) [10..<10 + k] \<and>
     ((\<exists>images. fst (retrieve_photo_data env obs_ids st) = Return images) \<longrightarrow> k = 10)"
proof -
  let ?st = "print (''Retrieving photo data for '' @ str_nat (length obs_ids) @
                    '' observations'') st"
  have len: "length (slice_10_20 obs_ids) = 10"
    using assms by (simp add: slice_10_20_def)
  from fetch_loop_requested [of "slice_10_20 obs_ids" env "[]" ?st] len
  obtain k where k: "k \<le> 10"
    "requested (snd (fetch_loop env (slice_10_20 obs_ids) [] ?st)) =
       requested ?st @ map (observation_url (repr env)) (take k (slice_10_20 obs_ids))"
    "(\<exists>imgs. fst (fetch_loop env (slice_10_20 obs_ids) [] ?st) = Return imgs) \<longrightarrow> k = 10"
    by auto
  have "requested (snd (retrieve_photo_data env obs_ids st)) =
       requested st @ map (\<lambda>i. observation_url (repr env) (obs_ids ! i)) [10..<10 + k]"
    using k(2) take_slice_10_20 [OF assms k(1)]
    by (simp add: retrieve_photo_data_def print_def o_def)
  moreover have "(\<exists>images. fst (retrieve_photo_data env obs_ids st) = Return images) \<longrightarrow> k = 10"
    using k(3) by (simp add: retrieve_photo_data_def)
  ultimately show ?thesis using k(1) by blast
qed



lemma str_nat_digit: "n < 10 \<Longrightarrow> str_nat n = [''0123456789'' ! n]"
  by (simp add: str_nat.simps)

lemma str_nat_more:
  "10 \<le> n \<Longrightarrow> str_nat n = str_nat (n div 10) @ [''0123456789'' ! (n mod 10)]"
  by (subst str_nat.simps) simp

lemma fetch_observation_frame:
  "stdout (snd (fetch_observation env idno images st)) = stdout st \<and>
   retrieved (snd (fetch_observation env idno images st)) = retrieved st \<and>
   image_files (snd (fetch_observation env idno images st)) = image_files st \<and>
   images_dir (snd (fetch_observation env idno images st)) = images_dir st \<and>
   metadata_csv (snd (fetch_observation env idno images st)) = metadata_csv st \<and>
   visited (snd (fetch_observation env idno images st)) = visited st"
  by (simp add: fetch_observation_def Let_def sleep1_def split: option.splits sum.splits)

lemma fetch_loop_frame:
  "stdout (snd (fetch_loop env ids images st)) = stdout st \<and>
   retrieved (snd (fetch_loop env ids images st)) = retrieved st \<and>
   image_files (snd (fetch_loop env ids images st)) = image_files st \<and>
   images_dir (snd (fetch_loop env ids images st)) = images_dir st \<and>
   metadata_csv (snd (fetch_loop env ids images st)) = metadata_csv st \<and>
   visited (snd (fetch_loop env ids images st)) = visited st"
proof (induction ids arbitrary: images st)
  case Nil
  then show ?case by simp
next
  case (Cons idno ids)
  obtain r st' where step: "fetch_observation env idno images st = (r, st')"
    by (cases "fetch_observation env idno images st")
  from fetch_observation_frame [of env idno images st] step
  have "stdout st' = stdout st" "retrieved st' = retrieved st" "image_files st' = image_files st"
    "images_dir st' = images_dir st" "metadata_csv st' = metadata_csv st" "visited st' = visited st"
    by simp_all
  then show ?case using step Cons.IH [of _ st']
    by (cases r) simp_all
qed

lemma retrieve_photo_data_frame:
  "stdout (snd (retrieve_photo_data env obs_ids st)) =
     stdout st @ [''Retrieving photo data for '' @ str_nat (length obs_ids) @ '' observations''] \<and>
   retrieved (snd (retrieve_photo_data env obs_ids st)) = retrieved st \<and>
   image_files (snd (retrieve_photo_data env obs_ids st)) = image_files st \<and>
   images_dir (snd (retrieve_photo_data env obs_ids st)) = images_dir st \<and>
   metadata_csv (snd (retrieve_photo_data env obs_ids st)) = metadata_csv st \<and>
   visited (snd (retrieve_photo_data env obs_ids st)) = visited st"
  unfolding retrieve_photo_data_def
  using fetch_loop_frame [of env "slice_10_20 obs_ids" "[]"
      "print (''Retrieving photo data for '' @ str_nat (length obs_ids) @ '' observations'') st"]
  by (simp add: print_def)

section \<open>Properties of the export\<close>

lemma set_first_seen: "set (first_seen seen xs) = set seen \<union> set xs"
  by (induction xs arbitrary: seen) auto

lemma columns_data_frame:
  "c \<in> set (columns (data_frame conv images)) \<longleftrightarrow> list_ex (\<lambda>r. map_of r c \<noteq> None) images"
  by (auto simp: data_frame_def Let_def set_first_seen list_ex_iff map_of_eq_None_iff)

lemma rows_data_frame:
  "rows (data_frame conv images) =
     map (\<lambda>i. map (\<lambda>c. conv (column_values images c) i) (columns (data_frame conv images)))
       [0..<length images]"
  by (simp add: data_frame_def Let_def)

lemma cell_data_frame:
  assumes "c \<in> set (columns df)"
  shows "cell df (map f (columns df)) c = f c"
  using assms by (simp add: cell_def map_of_zip_map)

lemma select_columns_data_frame:
  "select_columns cols (data_frame conv images) =
     (if list_all (\<lambda>c. list_ex (\<lambda>r. map_of r c \<noteq> None) images) cols
      then Inr \<lparr>columns = cols,
               rows = map (\<lambda>i. map (\<lambda>c. conv (column_values images c) i) cols)
                        [0..<length images]\<rparr>
      else Inl KeyError)"
proof (cases "list_all (\<lambda>c. list_ex (\<lambda>r. map_of r c \<noteq> None) images) cols")
  case False
  then show ?thesis by (simp add: select_columns_def columns_data_frame)
next
  case True
  then have cols: "\<And>c. c \<in> set cols \<Longrightarrow> c \<in> set (columns (data_frame conv images))"
    by (simp add: columns_data_frame list_all_iff)
  have "map (\<lambda>row. map (cell (data_frame conv images) row) cols) (rows (data_frame conv images)) =
        map (\<lambda>i. map (\<lambda>c. conv (column_values images c) i) cols) [0..<length images]"
    unfolding rows_data_frame by (simp add: cell_data_frame cols)
  with True show ?thesis
    by (simp add: select_columns_def columns_data_frame)
qed

lemma renamed_keep_columns:
  "map (\<lambda>c. case map_of rename_columns c of Some n \<Rightarrow> n | None \<Rightarrow> c) keep_columns =
     [''observation_id'', ''photo_id'', ''created_at'', ''updated_at'',
      ''inaturalist_page_url'', ''inaturalist_username'', ''license'', ''subtype'',
      ''original_image_url'', ''license_code'', ''attribution'', ''license_name'',
      ''license_url'', ''type'', ''image_url'']"
  by (simp add: keep_columns_def rename_columns_def)

lemma export_metadata_eq:
  "export_metadata env images st =
     (let st1 = print (''Data retrieved for '' @ str_nat (length images) @
                       '' photos. Exporting to image_metadata.csv'') st;
          t = \<lparr>columns = map (\<lambda>c. case map_of rename_columns c of Some n \<Rightarrow> n | None \<Rightarrow> c)
                            keep_columns,
               rows = map (\<lambda>i. map (\<lambda>c. convert_column env (column_values images c) i)
                                 keep_columns) [0..<length images]\<rparr>
      in if list_all (\<lambda>c. list_ex (\<lambda>r. map_of r c \<noteq> None) images) keep_columns
         then (case to_csv env t of
                 Written \<Rightarrow> (Return (), st1\<lparr>metadata_csv := Saved t\<rparr>)
               | NotOpened \<Rightarrow> (Raised WriteError, st1)
               | Incomplete \<Rightarrow> (Raised WriteError, st1\<lparr>metadata_csv := Damaged\<rparr>))
         else (Raised KeyError, st1))"
  by (simp add: export_metadata_def select_columns_data_frame Let_def rename_def)

lemma export_metadata_frame:
  "stdout (snd (export_metadata env images st)) =
     stdout st @ [''Data retrieved for '' @ str_nat (length images) @
                  '' photos. Exporting to image_metadata.csv''] \<and>
   requested (snd (export_metadata env images st)) = requested st \<and>
   retrieved (snd (export_metadata env images st)) = retrieved st \<and>
   image_files (snd (export_metadata env images st)) = image_files st \<and>
   images_dir (snd (export_metadata env images st)) = images_dir st \<and>
   visited (snd (export_metadata env images st)) = visited st"
  by (simp add: export_metadata_eq Let_def print_def split: write_outcome.splits)

section \<open>Properties of the download\<close>

lemma then_do_fst_Return:
  "fst (then_do m f) = Return y \<Longrightarrow> \<exists>x. fst m = Return x"
  by (cases m; cases "fst m") auto

lemma has_url_iff: "has_url img \<longleftrightarrow> (\<exists>s. image_url img = PStr s \<and> s \<noteq> [])"
  by (auto simp: has_url_def image_url_def dict_get_def split: option.splits pyval.splits)

lemma has_url_truthy: "has_url img \<Longrightarrow> truthy (image_url img)"
  by (auto simp: has_url_iff)

lemma urlretrieve_frame:
  "stdout (snd (urlretrieve env url name st)) = stdout st \<and>
   requested (snd (urlretrieve env url name st)) = requested st \<and>
   visited (snd (urlretrieve env url name st)) = visited st \<and>
   metadata_csv (snd (urlretrieve env url name st)) = metadata_csv st \<and>
   images_dir (snd (urlretrieve env url name st)) = images_dir st"
  by (cases url) (simp_all add: Let_def split: fetch.splits)

lemma urlretrieve_Return:
  assumes "fst (urlretrieve env url name st) = Return x"
  shows "\<exists>s content. url = PStr s \<and>
           url_content env (length (retrieved st)) s = Content content \<and>
           images_dir st = Directory \<and> open_file env (length (retrieved st)) name \<and>
           snd (urlretrieve env url name st) =
             st\<lparr>retrieved := retrieved st @ [(s, name)],
                image_files := (image_files st)(name \<mapsto> content)\<rparr>"
  using assms by (cases url) (simp_all add: Let_def split: fetch.splits if_splits)

lemma urlretrieve_calls:
  "retrieved (snd (urlretrieve env url name st)) =
     retrieved st @ (case url of PStr s \<Rightarrow> [(s, name)] | _ \<Rightarrow> [])"
  by (cases url) (simp_all add: Let_def split: fetch.splits)

lemma download_image_fetched:
  assumes "truthy (image_url img)"
    and "urlretrieve env (image_url img) (image_name (repr env) img)
           (st\<lparr>visited := visited st @ [img]\<rparr>) = (Return x, st1)"
  shows "download_image env n img c st =
     (Return (c + 1),
      sleep1 (if (c + 1) mod 10 = 0
              then print (''Retrieved '' @ str_nat (c + 1) @ '' of '' @ str_nat n @ '' images'') st1
              else st1))"
  using assms by (simp add: download_image_def Let_def)

lemma download_image_failed:
  assumes "truthy (image_url img)"
    and "urlretrieve env (image_url img) (image_name (repr env) img)
           (st\<lparr>visited := visited st @ [img]\<rparr>) = (Raised e, st1)"
  shows "download_image env n img c st = (Raised e, st1)"
  using assms by (simp add: download_image_def Let_def)

lemma urlretrieve_not_Exited:
  "fst (urlretrieve env url name st) \<noteq> Exited"
  by (cases url) (simp_all add: Let_def split: fetch.splits)

lemma download_image_skipped:
  assumes "\<not> truthy (image_url img)"
  shows "download_image env n img c st =
     (Return (c + 1),
      sleep1 (if (c + 1) mod 10 = 0
              then print (''Retrieved '' @ str_nat (c + 1) @ '' of '' @ str_nat n @ '' images'')
                     (st\<lparr>visited := visited st @ [img]\<rparr>)
              else st\<lparr>visited := visited st @ [img]\<rparr>))"
  using assms by (simp add: download_image_def Let_def)

text \<open>What one turn leaves alone, whatever its outcome.\<close>

lemma download_image_frame:
  "visited (snd (download_image env n img c st)) = visited st @ [img] \<and>
   requested (snd (download_image env n img c st)) = requested st \<and>
   metadata_csv (snd (download_image env n img c st)) = metadata_csv st \<and>
   images_dir (snd (download_image env n img c st)) = images_dir st \<and>
   (\<exists>lines. stdout (snd (download_image env n img c st)) = stdout st @ lines) \<and>
   fst (download_image env n img c st) \<noteq> Exited"
proof (cases "truthy (image_url img)")
  case False
  show ?thesis
    unfolding download_image_skipped [OF False] by (simp add: sleep1_def print_def)
next
  case True
  let ?st0 = "st\<lparr>visited := visited st @ [img]\<rparr>"
  let ?u = "urlretrieve env (image_url img) (image_name (repr env) img) ?st0"
  obtain r st1 where u: "?u = (r, st1)" by (cases ?u)
  from urlretrieve_frame [of env "image_url img" "image_name (repr env) img" ?st0] u
  have f: "stdout st1 = stdout st" "requested st1 = requested st"
    "visited st1 = visited st @ [img]" "metadata_csv st1 = metadata_csv st"
    "images_dir st1 = images_dir st" by simp_all
  from urlretrieve_not_Exited [of env "image_url img" "image_name (repr env) img" ?st0] u
  have ne: "r \<noteq> Exited" by simp
  show ?thesis
  proof (cases r)
    case (Return x)
    with u have "?u = (Return x, st1)" by simp
    from download_image_fetched [OF True this] f show ?thesis
      by (simp add: sleep1_def print_def)
  next
    case Exited
    with ne show ?thesis by simp
  next
    case (Raised e)
    with u have "?u = (Raised e, st1)" by simp
    from download_image_failed [OF True this] f show ?thesis by simp
  qed
qed

text \<open>The calls of one turn, whatever its outcome.\<close>

lemma download_image_calls:
  "retrieved (snd (download_image env n img c st)) =
     retrieved st @
     map (\<lambda>img. (url_text (image_url img), image_name (repr env) img)) (filter has_url [img])"
proof (cases "truthy (image_url img)")
  case False
  then have "\<not> has_url img" using has_url_truthy by blast
  then show ?thesis
    unfolding download_image_skipped [OF False] by (simp add: sleep1_def print_def)
next
  case True
  let ?st0 = "st\<lparr>visited := visited st @ [img]\<rparr>"
  let ?u = "urlretrieve env (image_url img) (image_name (repr env) img) ?st0"
  obtain r st1 where u: "?u = (r, st1)" by (cases ?u)
  from urlretrieve_calls [of env "image_url img" "image_name (repr env) img" ?st0] u
  have c: "retrieved st1 = retrieved st @
     (case image_url img of PStr s \<Rightarrow> [(s, image_name (repr env) img)] | _ \<Rightarrow> [])" by simp
  have st1: "retrieved (snd (download_image env n img c st)) = retrieved st1"
  proof (cases r)
    case (Return x)
    with u have "?u = (Return x, st1)" by simp
    from download_image_fetched [OF True this] show ?thesis
      by (simp add: sleep1_def print_def)
  next
    case Exited
    with u urlretrieve_not_Exited [of env "image_url img" "image_name (repr env) img" ?st0]
    show ?thesis by simp
  next
    case (Raised e)
    with u have "?u = (Raised e, st1)" by simp
    from download_image_failed [OF True this] show ?thesis by simp
  qed
  show ?thesis
  proof (cases "has_url img")
    case True
    then obtain s where "image_url img = PStr s" by (auto simp: has_url_iff)
    with True st1 c show ?thesis by simp
  next
    case False
    with \<open>truthy (image_url img)\<close> have "\<nexists>s. image_url img = PStr s"
      by (auto simp: has_url_iff)
    then have "(case image_url img of PStr s \<Rightarrow> [(s, image_name (repr env) img)] | _ \<Rightarrow> []) = []"
      by (cases "image_url img") simp_all
    with False st1 c show ?thesis by simp
  qed
qed

text \<open>A turn that returns.\<close>

lemma download_image_Return:
  assumes "fst (download_image env n img c st) = Return c'"
  shows "c' = c + 1 \<and> truthy (image_url img) = has_url img \<and>
         (if has_url img
          then retrieved (snd (download_image env n img c st)) =
                 retrieved st @ [(url_text (image_url img), image_name (repr env) img)] \<and>
               (\<exists>content.
                  url_content env (length (retrieved st)) (url_text (image_url img)) =
                    Content content \<and>
                  image_files (snd (download_image env n img c st)) =
                    (image_files st)(image_name (repr env) img \<mapsto> content))
          else retrieved (snd (download_image env n img c st)) = retrieved st \<and>
               image_files (snd (download_image env n img c st)) = image_files st)"
proof (cases "truthy (image_url img)")
  case False
  then have "\<not> has_url img" using has_url_truthy by blast
  with assms False show ?thesis
    unfolding download_image_skipped [OF False]
    by (auto simp: sleep1_def print_def)
next
  case True
  let ?st0 = "st\<lparr>visited := visited st @ [img]\<rparr>"
  let ?u = "urlretrieve env (image_url img) (image_name (repr env) img) ?st0"
  from assms True have "\<exists>x. fst ?u = Return x"
    by (auto simp: download_image_def Let_def dest: then_do_fst_Return)
  then obtain x where x: "fst ?u = Return x" by blast
  from urlretrieve_Return [OF x] obtain s content where
    s: "image_url img = PStr s" and
    content: "url_content env (length (retrieved st)) s = Content content" and
    st1: "snd ?u = ?st0\<lparr>retrieved := retrieved ?st0 @ [(s, image_name (repr env) img)],
        image_files := (image_files ?st0)(image_name (repr env) img \<mapsto> content)\<rparr>"
    by auto
  from True s have h: "has_url img" by (auto simp: has_url_iff)
  have u: "?u = (Return x, snd ?u)" using x by (cases ?u) simp
  from assms show ?thesis
    unfolding download_image_fetched [OF True u] st1 using True h s content
    by (auto simp: sleep1_def print_def)
qed

text \<open>The loop, whatever its outcome.\<close>

lemma download_loop_frame:
  "requested (snd (download_loop env n images c st)) = requested st \<and>
   metadata_csv (snd (download_loop env n images c st)) = metadata_csv st \<and>
   images_dir (snd (download_loop env n images c st)) = images_dir st \<and>
   (\<exists>lines. stdout (snd (download_loop env n images c st)) = stdout st @ lines) \<and>
   fst (download_loop env n images c st) \<noteq> Exited"
proof (induction images arbitrary: c st)
  case Nil
  then show ?case by simp
next
  case (Cons img images)
  obtain r st' where step: "download_image env n img c st = (r, st')"
    by (cases "download_image env n img c st")
  from download_image_frame [of env n img c st] step
  obtain lines where f: "requested st' = requested st" "metadata_csv st' = metadata_csv st"
    "images_dir st' = images_dir st" "stdout st' = stdout st @ lines" "r \<noteq> Exited"
    by auto
  show ?case
  proof (cases r)
    case (Return c1)
    from Cons.IH [of c1 st'] obtain lines' where
      "requested (snd (download_loop env n images c1 st')) = requested st'"
      "metadata_csv (snd (download_loop env n images c1 st')) = metadata_csv st'"
      "images_dir (snd (download_loop env n images c1 st')) = images_dir st'"
      "stdout (snd (download_loop env n images c1 st')) = stdout st' @ lines'"
      "fst (download_loop env n images c1 st') \<noteq> Exited"
      by blast
    with f step Return show ?thesis by simp
  next
    case Exited
    with f show ?thesis by simp
  next
    case (Raised e)
    with f step show ?thesis by simp
  qed
qed

lemma download_loop_progress:
  "\<exists>k\<le>length images.
     visited (snd (download_loop env n images c st)) = visited st @ take k images \<and>
     retrieved (snd (download_loop env n images c st)) =
       retrieved st @
       map (\<lambda>img. (url_text (image_url img), image_name (repr env) img))
         (filter has_url (take k images)) \<and>
     ((\<exists>c'. fst (download_loop env n images c st) = Return c') \<longrightarrow> k = length images)"
proof (induction images arbitrary: c st)
  case Nil
  then show ?case by simp
next
  case (Cons img images)
  let ?call = "\<lambda>img. (url_text (image_url img), image_name (repr env) img)"
  obtain r st' where step: "download_image env n img c st = (r, st')"
    by (cases "download_image env n img c st")
  from download_image_frame [of env n img c st] download_image_calls [of env n img c st] step
  have one: "visited st' = visited st @ [img]"
    "retrieved st' = retrieved st @ map ?call (filter has_url [img])"
    by simp_all
  show ?case
  proof (cases r)
    case (Return c1)
    from Cons.IH [of c1 st'] obtain k where k: "k \<le> length images"
      "visited (snd (download_loop env n images c1 st')) = visited st' @ take k images"
      "retrieved (snd (download_loop env n images c1 st')) =
         retrieved st' @ map ?call (filter has_url (take k images))"
      "(\<exists>c'. fst (download_loop env n images c1 st') = Return c') \<longrightarrow> k = length images"
      by blast
    have "Suc k \<le> length (img # images) \<and>
      visited (snd (download_loop env n (img # images) c st)) =
        visited st @ take (Suc k) (img # images) \<and>
      retrieved (snd (download_loop env n (img # images) c st)) =
        retrieved st @ map ?call (filter has_url (take (Suc k) (img # images))) \<and>
      ((\<exists>c'. fst (download_loop env n (img # images) c st) = Return c') \<longrightarrow>
         Suc k = length (img # images))"
      using step Return one k by simp
    then show ?thesis by blast
  next
    case Exited
    with download_image_frame [of env n img c st] step show ?thesis by simp
  next
    case (Raised e)
    have "Suc 0 \<le> length (img # images) \<and>
      visited (snd (download_loop env n (img # images) c st)) =
        visited st @ take (Suc 0) (img # images) \<and>
      retrieved (snd (download_loop env n (img # images) c st)) =
        retrieved st @ map ?call (filter has_url (take (Suc 0) (img # images))) \<and>
      ((\<exists>c'. fst (download_loop env n (img # images) c st) = Return c') \<longrightarrow>
         Suc 0 = length (img # images))"
      using step Raised one by simp
    then show ?thesis by blast
  qed
qed

text \<open>A loop that returns: the files.\<close>

lemma download_loop_step:
  assumes "fst (download_loop env n (img # images) c st) = Return c'"
  obtains c1 st1 where "download_image env n img c st = (Return c1, st1)"
    and "fst (download_loop env n images c1 st1) = Return c'"
    and "snd (download_loop env n (img # images) c st) = snd (download_loop env n images c1 st1)"
proof -
  obtain r st1 where step: "download_image env n img c st = (r, st1)"
    by (cases "download_image env n img c st")
  with assms obtain c1 where r: "r = Return c1" by (cases r) simp_all
  from step r assms have "fst (download_loop env n images c1 st1) = Return c'"
    "snd (download_loop env n (img # images) c st) = snd (download_loop env n images c1 st1)"
    by simp_all
  with step r that show ?thesis by blast
qed

lemma download_loop_files_other:
  assumes "fst (download_loop env n images c st) = Return c'"
    and "p \<notin> image_name (repr env) ` set (filter has_url images)"
  shows "image_files (snd (download_loop env n images c st)) p = image_files st p"
  using assms
proof (induction images arbitrary: c st)
  case Nil
  then show ?case by simp
next
  case (Cons img images)
  from Cons.prems(1) obtain c1 st1 where
    step: "download_image env n img c st = (Return c1, st1)" and
    rest: "fst (download_loop env n images c1 st1) = Return c'" and
    eq: "snd (download_loop env n (img # images) c st) = snd (download_loop env n images c1 st1)"
    by (rule download_loop_step)
  from step have "fst (download_image env n img c st) = Return c1" by simp
  from download_image_Return [OF this] step Cons.prems(2)
  have "image_files st1 p = image_files st p"
    by (auto split: if_splits)
  moreover from Cons.prems(2)
  have "p \<notin> image_name (repr env) ` set (filter has_url images)" by (auto split: if_splits)
  from Cons.IH [OF rest this]
  have "image_files (snd (download_loop env n images c1 st1)) p = image_files st1 p" .
  ultimately show ?case unfolding eq by simp
qed

lemma download_loop_files_last:
  assumes "fst (download_loop env n images c st) = Return c'"
    and "filter has_url images = pre @ img # post"
    and "image_name (repr env) img \<notin> image_name (repr env) ` set post"
  shows "\<exists>content.
     url_content env (length (retrieved st) + length pre) (url_text (image_url img)) =
       Content content \<and>
     image_files (snd (download_loop env n images c st)) (image_name (repr env) img) =
       Some content"
  using assms(1,2)
proof (induction images arbitrary: c st pre)
  case Nil
  then show ?case by simp
next
  case (Cons x images)
  from Cons.prems(1) obtain c1 st1 where
    step: "download_image env n x c st = (Return c1, st1)" and
    rest: "fst (download_loop env n images c1 st1) = Return c'" and
    eq: "snd (download_loop env n (x # images) c st) = snd (download_loop env n images c1 st1)"
    by (rule download_loop_step)
  from step have "fst (download_image env n x c st) = Return c1" by simp
  note one = download_image_Return [OF this]
  show ?case
  proof (cases "has_url x")
    case False
    with Cons.prems(2) have f: "filter has_url images = pre @ img # post" by simp
    from one False step have "retrieved st1 = retrieved st" by simp
    with Cons.IH [OF rest f] show ?thesis unfolding eq by simp
  next
    case True
    with one step obtain content where
      r1: "retrieved st1 = retrieved st @ [(url_text (image_url x), image_name (repr env) x)]" and
      c0: "url_content env (length (retrieved st)) (url_text (image_url x)) = Content content" and
      f1: "image_files st1 = (image_files st)(image_name (repr env) x \<mapsto> content)"
      by auto
    from True Cons.prems(2) have f: "x # filter has_url images = pre @ img # post" by simp
    show ?thesis
    proof (cases pre)
      case Nil
      with f have x: "x = img" and post: "filter has_url images = post" by simp_all
      from assms(3) post
      have "image_name (repr env) img \<notin> image_name (repr env) ` set (filter has_url images)"
        by simp
      from download_loop_files_other [OF rest this] f1 x
      have "image_files (snd (download_loop env n images c1 st1)) (image_name (repr env) img) =
          Some content" by simp
      with c0 x Nil show ?thesis unfolding eq by auto
    next
      case (Cons y pre')
      with f have f': "filter has_url images = pre' @ img # post" by simp
      from Cons.IH [OF rest f'] r1 Cons show ?thesis unfolding eq by simp
    qed
  qed
qed

text \<open>A loop that meets no obstacle returns.\<close>

lemma download_image_succeeds:
  assumes "truthy (image_url img) \<longrightarrow> has_url img" and "images_dir st = Directory"
    and "\<And>k u. \<exists>content. url_content env k u = Content content"
    and "\<And>k f. open_file env k f"
  shows "\<exists>c'. fst (download_image env n img c st) = Return c'"
proof (cases "truthy (image_url img)")
  case False
  show ?thesis unfolding download_image_skipped [OF False] by simp
next
  case True
  with assms(1) obtain s where s: "image_url img = PStr s" by (auto simp: has_url_iff)
  from assms(3) obtain content where
    "url_content env (length (retrieved st)) s = Content content" by blast
  then have "\<exists>st1. urlretrieve env (image_url img) (image_name (repr env) img)
           (st\<lparr>visited := visited st @ [img]\<rparr>) = (Return (), st1)"
    using s assms(2,4) by (simp add: Let_def)
  then obtain st1 where "urlretrieve env (image_url img) (image_name (repr env) img)
           (st\<lparr>visited := visited st @ [img]\<rparr>) = (Return (), st1)" by blast
  from download_image_fetched [OF True this] show ?thesis by simp
qed

lemma download_loop_succeeds:
  assumes "\<And>img. img \<in> set images \<Longrightarrow> truthy (image_url img) \<longrightarrow> has_url img"
    and "images_dir st = Directory"
    and "\<And>k u. \<exists>content. url_content env k u = Content content"
    and "\<And>k f. open_file env k f"
  shows "\<exists>c'. fst (download_loop env n images c st) = Return c'"
  using assms(1,2)
proof (induction images arbitrary: c st)
  case Nil
  then show ?case by simp
next
  case (Cons img images)
  from Cons.prems(1) have "truthy (image_url img) \<longrightarrow> has_url img" by simp
  from download_image_succeeds [OF this Cons.prems(2) assms(3,4), of n c]
  obtain c1 where c1: "fst (download_image env n img c st) = Return c1" by blast
  then obtain st1 where step: "download_image env n img c st = (Return c1, st1)"
    by (cases "download_image env n img c st") simp
  from download_image_frame [of env n img c st] step Cons.prems(2)
  have "images_dir st1 = Directory" by simp
  from Cons.IH [OF _ this, of c1] Cons.prems(1)
  obtain c' where "fst (download_loop env n images c1 st1) = Return c'" by auto
  with step show ?case by simp
qed

lemma download_images_eq:
  "download_images env images st =
     (case download_loop env (length images) images 0
             (print (''Retrieving '' @ str_nat (length images) @ '' images'')
                (make_images_dir st)) of
        (Return x, st') \<Rightarrow>
          (Return (),
           print (''Done, '' @ str_nat (length images) @ '' of '' @
                  str_nat (length images) @ '' images have been retrieved'') st')
      | (Exited, st') \<Rightarrow> (Exited, st')
      | (Raised e, st') \<Rightarrow> (Raised e, st'))"
  by (simp add: download_images_def split: prod.splits result.splits)

lemma make_images_dir_frame:
  "stdout (make_images_dir st) =
     stdout st @ [if images_dir st = Absent then ''Created images directory.''
                  else ''Images directory already exists.''] \<and>
   images_dir (make_images_dir st) =
     (if images_dir st = Absent then Directory else images_dir st) \<and>
   requested (make_images_dir st) = requested st \<and>
   retrieved (make_images_dir st) = retrieved st \<and>
   image_files (make_images_dir st) = image_files st \<and>
   metadata_csv (make_images_dir st) = metadata_csv st \<and>
   visited (make_images_dir st) = visited st"
  by (simp add: make_images_dir_def print_def split: entry.splits)

lemma download_images_frame:
  "requested (snd (download_images env images st)) = requested st \<and>
   metadata_csv (snd (download_images env images st)) = metadata_csv st \<and>
   images_dir (snd (download_images env images st)) =
     (if images_dir st = Absent then Directory else images_dir st) \<and>
   (\<exists>lines. stdout (snd (download_images env images st)) =
      stdout st @
      [if images_dir st = Absent then ''Created images directory.''
       else ''Images directory already exists.'',
       ''Retrieving '' @ str_nat (length images) @ '' images''] @ lines) \<and>
   fst (download_images env images st) \<noteq> Exited"
proof -
  let ?m = "print (''Retrieving '' @ str_nat (length images) @ '' images'') (make_images_dir st)"
  obtain r st' where loop: "download_loop env (length images) images 0 ?m = (r, st')"
    by (cases "download_loop env (length images) images 0 ?m")
  from download_loop_frame [of env "length images" images 0 ?m] loop
    make_images_dir_frame [of st]
  obtain lines where f: "requested st' = requested st" "metadata_csv st' = metadata_csv st"
    "images_dir st' = (if images_dir st = Absent then Directory else images_dir st)"
    "stdout st' = stdout st @
      [if images_dir st = Absent then ''Created images directory.''
       else ''Images directory already exists.'',
       ''Retrieving '' @ str_nat (length images) @ '' images''] @ lines"
    "r \<noteq> Exited"
    by (auto simp: print_def)
  show ?thesis
  proof (cases r)
    case (Return x)
    with loop f have "requested (snd (download_images env images st)) = requested st \<and>
      metadata_csv (snd (download_images env images st)) = metadata_csv st \<and>
      images_dir (snd (download_images env images st)) =
        (if images_dir st = Absent then Directory else images_dir st) \<and>
      stdout (snd (download_images env images st)) =
        stdout st @
        [if images_dir st = Absent then ''Created images directory.''
         else ''Images directory already exists.'',
         ''Retrieving '' @ str_nat (length images) @ '' images''] @
        (lines @ [''Done, '' @ str_nat (length images) @ '' of '' @
                  str_nat (length images) @ '' images have been retrieved'']) \<and>
      fst (download_images env images st) \<noteq> Exited"
      by (simp add: download_images_eq print_def)
    then show ?thesis by blast
  next
    case Exited
    with f show ?thesis by simp
  next
    case (Raised e)
    with loop f have "requested (snd (download_images env images st)) = requested st \<and>
      metadata_csv (snd (download_images env images st)) = metadata_csv st \<and>
      images_dir (snd (download_images env images st)) =
        (if images_dir st = Absent then Directory else images_dir st) \<and>
      stdout (snd (download_images env images st)) =
        stdout st @
        [if images_dir st = Absent then ''Created images directory.''
         else ''Images directory already exists.'',
         ''Retrieving '' @ str_nat (length images) @ '' images''] @ lines \<and>
      fst (download_images env images st) \<noteq> Exited"
      by (simp add: download_images_eq)
    then show ?thesis by blast
  qed
qed

lemma download_images_loop:
  obtains r st' where
    "download_loop env (length images) images 0
       (print (''Retrieving '' @ str_nat (length images) @ '' images'') (make_images_dir st)) =
     (r, st')"
    and "visited (snd (download_images env images st)) = visited st'"
    and "retrieved (snd (download_images env images st)) = retrieved st'"
    and "image_files (snd (download_images env images st)) = image_files st'"
    and "(fst (download_images env images st) = Return ()) = (\<exists>x. r = Return x)"
proof -
  let ?m = "print (''Retrieving '' @ str_nat (length images) @ '' images'') (make_images_dir st)"
  obtain r st' where loop: "download_loop env (length images) images 0 ?m = (r, st')"
    by (cases "download_loop env (length images) images 0 ?m")
  then have "visited (snd (download_images env images st)) = visited st'"
    "retrieved (snd (download_images env images st)) = retrieved st'"
    "image_files (snd (download_images env images st)) = image_files st'"
    "(fst (download_images env images st) = Return ()) = (\<exists>x. r = Return x)"
    by (cases r; simp add: download_images_eq print_def)+
  with loop that show ?thesis by blast
qed

lemma download_images_progress:
  "\<exists>k\<le>length images.
     visited (snd (download_images env images st)) = visited st @ take k images \<and>
     retrieved (snd (download_images env images st)) =
       retrieved st @
       map (\<lambda>img. (url_text (image_url img), image_name (repr env) img))
         (filter has_url (take k images)) \<and>
     (fst (download_images env images st) = Return () \<longrightarrow> k = length images)"
proof -
  let ?m = "print (''Retrieving '' @ str_nat (length images) @ '' images'') (make_images_dir st)"
  obtain r st' where loop: "download_loop env (length images) images 0 ?m = (r, st')"
    and eq: "visited (snd (download_images env images st)) = visited st'"
       "retrieved (snd (download_images env images st)) = retrieved st'"
       "(fst (download_images env images st) = Return ()) = (\<exists>x. r = Return x)"
    by (rule download_images_loop)
  have m: "visited ?m = visited st" "retrieved ?m = retrieved st"
    using make_images_dir_frame [of st] by (simp_all add: print_def)
  from download_loop_progress [of images env "length images" 0 ?m] loop
  show ?thesis unfolding eq m by simp
qed

lemma download_images_files_other:
  assumes "fst (download_images env images st) = Return ()"
    and "p \<notin> image_name (repr env) ` set (filter has_url images)"
  shows "image_files (snd (download_images env images st)) p = image_files st p"
proof -
  let ?m = "print (''Retrieving '' @ str_nat (length images) @ '' images'') (make_images_dir st)"
  obtain r st' where loop: "download_loop env (length images) images 0 ?m = (r, st')"
    and eq: "image_files (snd (download_images env images st)) = image_files st'"
       "(fst (download_images env images st) = Return ()) = (\<exists>x. r = Return x)"
    by (rule download_images_loop)
  from assms(1) eq(2) obtain x where "r = Return x" by blast
  with loop have "fst (download_loop env (length images) images 0 ?m) = Return x" by simp
  from download_loop_files_other [OF this assms(2)] loop
  have "image_files st' p = image_files ?m p" by simp
  moreover have "image_files ?m = image_files st"
    using make_images_dir_frame [of st] by (simp add: print_def)
  ultimately show ?thesis unfolding eq by simp
qed

lemma download_images_files_last:
  assumes "fst (download_images env images st) = Return ()"
    and "filter has_url images = pre @ img # post"
    and "image_name (repr env) img \<notin> image_name (repr env) ` set post"
  shows "\<exists>content.
     url_content env (length (retrieved st) + length pre) (url_text (image_url img)) =
       Content content \<and>
     image_files (snd (download_images env images st)) (image_name (repr env) img) =
       Some content"
proof -
  let ?m = "print (''Retrieving '' @ str_nat (length images) @ '' images'') (make_images_dir st)"
  obtain r st' where loop: "download_loop env (length images) images 0 ?m = (r, st')"
    and eq: "image_files (snd (download_images env images st)) = image_files st'"
       "(fst (download_images env images st) = Return ()) = (\<exists>x. r = Return x)"
    by (rule download_images_loop)
  from assms(1) eq(2) obtain x where "r = Return x" by blast
  with loop have "fst (download_loop env (length images) images 0 ?m) = Return x" by simp
  from download_loop_files_last [OF this assms(2,3)] loop
  have "\<exists>content.
     url_content env (length (retrieved ?m) + length pre) (url_text (image_url img)) =
       Content content \<and>
     image_files st' (image_name (repr env) img) = Some content" by simp
  moreover have "retrieved ?m = retrieved st"
    using make_images_dir_frame [of st] by (simp add: print_def)
  ultimately show ?thesis unfolding eq by simp
qed

lemma download_images_succeeds:
  assumes "\<And>img. img \<in> set images \<Longrightarrow> truthy (image_url img) \<longrightarrow> has_url img"
    and "images_dir st \<noteq> RegularFile"
    and "\<And>k u. \<exists>content. url_content env k u = Content content"
    and "\<And>k f. open_file env k f"
  shows "fst (download_images env images st) = Return ()"
proof -
  let ?m = "print (''Retrieving '' @ str_nat (length images) @ '' images'') (make_images_dir st)"
  obtain r st' where loop: "download_loop env (length images) images 0 ?m = (r, st')"
    and eq: "(fst (download_images env images st) = Return ()) = (\<exists>x. r = Return x)"
    by (rule download_images_loop)
  have "images_dir ?m = Directory"
    using make_images_dir_frame [of st] assms(2)
    by (cases "images_dir st") (simp_all add: print_def)
  from download_loop_succeeds [OF assms(1) this assms(3,4), of images "length images" 0] loop
  show ?thesis unfolding eq by simp
qed

text \<open>The records of the fetcher have a string under \<^verbatim>\<open>original_size_url\<close>.\<close>

lemma photo_data_string_url:
  assumes "photo_data photo = Inr r"
  shows "\<exists>s. image_url r = PStr s"
proof -
  from assms obtain merged u where
    u: "original_size_url (dict_get merged ''large_url'' (PStr '''')) = Inr u" and
    r: "r = AList.update ''original_size_url'' u merged"
    by (auto simp: photo_data_def split: sum.splits)
  from u obtain s where "u = PStr s"
    by (cases "dict_get merged ''large_url'' (PStr '''')") auto
  with r show ?thesis
    by (simp add: image_url_def dict_get_def update_conv')
qed

lemma photo_records_string_url:
  assumes "photo_records photos images = Inr images'"
    and "\<And>img. img \<in> set images \<Longrightarrow> \<exists>s. image_url img = PStr s"
  shows "\<And>img. img \<in> set images' \<Longrightarrow> \<exists>s. image_url img = PStr s"
  using assms
proof (induction photos arbitrary: images)
  case Nil
  then show ?case by simp
next
  case (Cons photo photos)
  from Cons.prems(2) obtain pd where pd: "photo_data photo = Inr pd"
    and rest: "photo_records photos (images @ [pd]) = Inr images'"
    by (auto split: sum.splits)
  from photo_data_string_url [OF pd] Cons.prems(3)
  have "\<And>img. img \<in> set (images @ [pd]) \<Longrightarrow> \<exists>s. image_url img = PStr s" by auto
  from Cons.IH [OF Cons.prems(1) rest this] show ?case .
qed

lemma fetch_observation_string_url:
  assumes "fst (fetch_observation env idno images st) = Return images'"
    and "\<And>img. img \<in> set images \<Longrightarrow> \<exists>s. image_url img = PStr s"
    and "img \<in> set images'"
  shows "\<exists>s. image_url img = PStr s"
proof -
  from assms(1) obtain ps where "photo_records ps images = Inr images'"
    by (auto simp: fetch_observation_def Let_def split: option.splits sum.splits)
  from photo_records_string_url [OF this assms(2) assms(3)] show ?thesis by blast
qed

lemma fetch_loop_string_url:
  assumes "fst (fetch_loop env ids images st) = Return images'"
    and "\<And>img. img \<in> set images \<Longrightarrow> \<exists>s. image_url img = PStr s"
    and "img \<in> set images'"
  shows "\<exists>s. image_url img = PStr s"
  using assms(1,2)
proof (induction ids arbitrary: images st)
  case Nil
  with assms(3) show ?case by simp
next
  case (Cons idno ids)
  obtain r st' where step: "fetch_observation env idno images st = (r, st')"
    by (cases "fetch_observation env idno images st")
  with Cons.prems(1) obtain images1 where r: "r = Return images1"
    by (cases r) simp_all
  from step r have one: "fst (fetch_observation env idno images st) = Return images1" by simp
  have "\<And>img. img \<in> set images1 \<Longrightarrow> \<exists>s. image_url img = PStr s"
    using fetch_observation_string_url [OF one Cons.prems(2)] by blast
  moreover from Cons.prems(1) step r
  have "fst (fetch_loop env ids images1 st') = Return images'" by simp
  ultimately show ?case using Cons.IH by blast
qed

lemma fetched_string_url:
  assumes "fst (retrieve_photo_data env obs_ids st) = Return images"
    and "img \<in> set images"
  shows "truthy (image_url img) \<longrightarrow> has_url img"
proof -
  from assms(1)
  have "fst (fetch_loop env (slice_10_20 obs_ids) []
               (print (''Retrieving photo data for '' @ str_nat (length obs_ids) @
                       '' observations'') st)) = Return images"
    by (simp add: retrieve_photo_data_def)
  from fetch_loop_string_url [OF this _ assms(2)]
  obtain s where "image_url img = PStr s" by auto
  then show ?thesis by (auto simp: has_url_iff)
qed

text \<open>The phases of a run.\<close>

lemma main_fetched:
  assumes "read_csv env = Frame cols" and "map_of cols ''id'' = Some obs_ids"
    and "fst (retrieve_photo_data env obs_ids st) = Return images"
  shows "main env st =
     export_and_download env images (snd (retrieve_photo_data env obs_ids st))"
proof -
  from assms(3) obtain st2 where "retrieve_photo_data env obs_ids st = (Return images, st2)"
    by (cases "retrieve_photo_data env obs_ids st") simp
  then show ?thesis using assms(1,2)
    by (simp add: main_def load_observations_def)
qed

lemma export_and_download_exported:
  assumes "fst (export_metadata env images st) = Return ()"
  shows "export_and_download env images st =
     download_images env images (snd (export_metadata env images st))"
proof -
  from assms obtain st' where "export_metadata env images st = (Return (), st')"
    by (cases "export_metadata env images st") simp
  then show ?thesis by (simp add: export_and_download_def)
qed

lemma export_and_download_not_exported:
  assumes "fst (export_metadata env images st) \<noteq> Return ()"
  shows "export_and_download env images st = export_metadata env images st"
proof -
  obtain r st' where e: "export_metadata env images st = (r, st')"
    by (cases "export_metadata env images st")
  with assms show ?thesis
    by (cases r) (simp_all add: export_and_download_def)
qed

lemma urlretrieve_errors:
  "fst (urlretrieve env url name st) = Raised e \<Longrightarrow> e = RetrieveError \<or> e = TypeError"
  by (cases url) (simp_all add: Let_def split: fetch.splits if_splits)

lemma download_image_errors:
  assumes "fst (download_image env n img c st) = Raised e"
  shows "e = RetrieveError \<or> e = TypeError"
proof (cases "truthy (image_url img)")
  case False
  with assms show ?thesis unfolding download_image_skipped [OF False] by simp
next
  case True
  let ?u = "urlretrieve env (image_url img) (image_name (repr env) img)
              (st\<lparr>visited := visited st @ [img]\<rparr>)"
  obtain r st1 where u: "?u = (r, st1)" by (cases ?u)
  show ?thesis
  proof (cases r)
    case (Return x)
    with u have "?u = (Return x, st1)" by simp
    from download_image_fetched [OF True this] assms show ?thesis by simp
  next
    case Exited
    with u urlretrieve_not_Exited [of env "image_url img" "image_name (repr env) img"
        "st\<lparr>visited := visited st @ [img]\<rparr>"]
    show ?thesis by simp
  next
    case (Raised e')
    with u have f: "?u = (Raised e', st1)" by simp
    from download_image_failed [OF True f] assms have "e' = e" by simp
    with f urlretrieve_errors [of env "image_url img" "image_name (repr env) img"
        "st\<lparr>visited := visited st @ [img]\<rparr>" e]
    show ?thesis by simp
  qed
qed

lemma download_loop_errors:
  assumes "fst (download_loop env n images c st) = Raised e"
  shows "e = RetrieveError \<or> e = TypeError"
  using assms
proof (induction images arbitrary: c st)
  case Nil
  then show ?case by simp
next
  case (Cons img images)
  obtain r st' where step: "download_image env n img c st = (r, st')"
    by (cases "download_image env n img c st")
  show ?case
  proof (cases r)
    case (Return c1)
    with step Cons.prems have "fst (download_loop env n images c1 st') = Raised e" by simp
    from Cons.IH [OF this] show ?thesis .
  next
    case Exited
    with step Cons.prems show ?thesis by simp
  next
    case (Raised e')
    with step Cons.prems have "fst (download_image env n img c st) = Raised e" by simp
    from download_image_errors [OF this] show ?thesis .
  qed
qed

lemma download_images_errors:
  assumes "fst (download_images env images st) = Raised e"
  shows "e = RetrieveError \<or> e = TypeError"
proof -
  let ?m = "print (''Retrieving '' @ str_nat (length images) @ '' images'') (make_images_dir st)"
  obtain r st' where loop: "download_loop env (length images) images 0 ?m = (r, st')"
    by (cases "download_loop env (length images) images 0 ?m")
  with assms have "r = Raised e"
    by (cases r) (simp_all add: download_images_eq)
  with loop have "fst (download_loop env (length images) images 0 ?m) = Raised e" by simp
  from download_loop_errors [OF this] show ?thesis .
qed

lemma before_download:
  "stdout (snd (export_metadata env images (snd (retrieve_photo_data env obs_ids st)))) =
     stdout st @
     [''Retrieving photo data for '' @ str_nat (length obs_ids) @ '' observations'',
      ''Data retrieved for '' @ str_nat (length images) @
      '' photos. Exporting to image_metadata.csv''] \<and>
   retrieved (snd (export_metadata env images (snd (retrieve_photo_data env obs_ids st)))) =
     retrieved st \<and>
   image_files (snd (export_metadata env images (snd (retrieve_photo_data env obs_ids st)))) =
     image_files st \<and>
   images_dir (snd (export_metadata env images (snd (retrieve_photo_data env obs_ids st)))) =
     images_dir st \<and>
   visited (snd (export_metadata env images (snd (retrieve_photo_data env obs_ids st)))) =
     visited st"
  using export_metadata_frame [of env images "snd (retrieve_photo_data env obs_ids st)"]
    retrieve_photo_data_frame [of env obs_ids st]
  by simp

lemma export_and_download_api_requests:
  "requested (snd (export_and_download env images st)) = requested st"
proof (cases "fst (export_metadata env images st) = Return ()")
  case True
  show ?thesis
    unfolding export_and_download_exported [OF True]
    using download_images_frame [of env images "snd (export_metadata env images st)"]
      export_metadata_frame [of env images st]
    by simp
next
  case False
  show ?thesis
    unfolding export_and_download_not_exported [OF False]
    using export_metadata_frame [of env images st] by simp
qed

section \<open>The example run\<close>

lemma sample_photo_data:
  "photo_data (sample_photo 110 1 [(''large_url'', PStr ''https://x/large.jpg'')]) =
     Inr (sample_images ! 0)"
  "photo_data (sample_photo 110 2 []) = Inr (sample_images ! 1)"
  "photo_data (sample_photo 115 3 [(''large_url'', PStr ''https://y/large.jpg'')]) =
     Inr (sample_images ! 2)"
  by (simp_all add: photo_data_def sample_photo_def sample_images_def sample_record_def
        sample_fields_def dict_get_def)

lemma sample_fetch:
  "fst (retrieve_photo_data sample_env sample_ids st) = Return sample_images"
  by (simp add: retrieve_photo_data_def slice_10_20_def sample_ids_def fetch_observation_def
        Let_def observation_url_def str_int_def str_nat_digit str_nat_more sample_env_def
        sample_get_json_def dict_get_def sample_photo_data)
     (simp add: sample_images_def)

lemma sample_has_all_fields:
  "list_all (\<lambda>c. list_ex (\<lambda>r. map_of r c \<noteq> None) sample_images) keep_columns"
  by (simp add: keep_columns_def sample_images_def sample_record_def sample_fields_def)

lemma sample_export:
  "fst (export_metadata sample_env sample_images st) = Return ()"
  using sample_has_all_fields
  by (simp add: export_metadata_eq Let_def sample_env_def)

lemma sample_frame:
  "read_csv sample_env = Frame [(''observed_on'', []), (''id'', sample_ids)]"
  "map_of [(''observed_on'', []), (''id'', sample_ids)] ''id'' = Some sample_ids"
  by (simp_all add: sample_env_def)

lemma sample_returns:
  assumes "images_dir st \<noteq> RegularFile"
  shows "fst (main sample_env st) = Return ()"
proof -
  have "images_dir (snd (export_metadata sample_env sample_images
          (snd (retrieve_photo_data sample_env sample_ids st)))) \<noteq> RegularFile"
    using before_download [of sample_env sample_images sample_ids st] assms by simp
  from download_images_succeeds [OF fetched_string_url [OF sample_fetch] this]
  have "fst (download_images sample_env sample_images
          (snd (export_metadata sample_env sample_images
             (snd (retrieve_photo_data sample_env sample_ids st))))) = Return ()"
    by (simp add: sample_env_def)
  then show ?thesis
    unfolding main_fetched [OF sample_frame sample_fetch]
      export_and_download_exported [OF sample_export] .
qed

lemma sample_has_url:
  "filter has_url sample_images = [sample_images ! 0, sample_images ! 2]"
  by (simp add: sample_images_def has_url_def sample_record_def sample_fields_def)

lemma sample_names:
  "image_name (repr sample_env) (sample_images ! 0) = ''images/observation110_image1.jpg''"
  "image_name (repr sample_env) (sample_images ! 1) = ''images/observation110_image2.jpg''"
  "image_name (repr sample_env) (sample_images ! 2) = ''images/observation115_image3.jpg''"
  by (simp_all add: image_name_def dict_get_def sample_images_def sample_record_def
        str_int_def str_nat_digit str_nat_more)

lemma sample_urls:
  "url_text (image_url (sample_images ! 0)) = ''https://x/original.jpg''"
  "url_text (image_url (sample_images ! 2)) = ''https://y/original.jpg''"
  by (simp_all add: image_url_def dict_get_def sample_images_def sample_record_def
        sample_fields_def)

lemma sample_env_fields:
  "repr sample_env = (\<lambda>v. [])"
  "url_content sample_env k u = Content (''image at '' @ u)"
  "open_file sample_env k f"
  "convert_column sample_env = (\<lambda>values i. values ! i)"
  by (simp_all add: sample_env_def)

lemma sample_decomposition:
  "filter has_url sample_images = [] @ (sample_images ! 0) # [sample_images ! 2]"
  "image_name (repr sample_env) (sample_images ! 0) \<notin>
     image_name (repr sample_env) ` set [sample_images ! 2]"
  "''images/observation110_image2.jpg'' \<notin>
     image_name (repr sample_env) ` set (filter has_url sample_images)"
  by (simp_all add: sample_has_url sample_names)

section \<open>The requests of a run\<close>

text \<open>
  C1: for an input table whose \<^verbatim>\<open>id\<close> column has at least 20 rows, the URLs requested
  from the API in the whole run are those of the identifiers at the positions 10, 11, ...
  of the column, in this order, never past position 19 and never of another position: all
  ten when the fetch returns, and the first \<open>k\<close> of them when the \<open>k\<close>-th request or its
  response raises.
\<close>

theorem requests_for_positions_10_to_19:
  assumes "read_csv env = Frame cols" and "map_of cols ''id'' = Some obs_ids"
    and "20 \<le> length obs_ids"
  shows "\<exists>k\<le>10.
     requested (snd (main env st)) =
       requested st @ map (\<lambda>i. observation_url (repr env) (obs_ids ! i)) [10..<10 + k] \<and>
     ((\<exists>images. fst (retrieve_photo_data env obs_ids st) = Return images) \<longrightarrow> k = 10)"
proof -
  obtain r st2 where f: "retrieve_photo_data env obs_ids st = (r, st2)"
    by (cases "retrieve_photo_data env obs_ids st")
  have "main env st = then_do (r, st2) (\<lambda>images st2. export_and_download env images st2)"
    using assms(1,2) f by (simp add: main_def load_observations_def)
  then have "requested (snd (main env st)) = requested st2"
    by (cases r) (simp_all add: export_and_download_api_requests)
  with f have "requested (snd (main env st)) =
      requested (snd (retrieve_photo_data env obs_ids st))" by simp
  with retrieve_photo_data_requested [OF assms(3), of env st] show ?thesis by simp
qed

theorem requests_for_positions_10_to_19_witness:
  "20 \<le> length [PInt 100, PInt 101, PInt 102, PInt 103, PInt 104, PInt 105, PInt 106, PInt 107, PInt 108, PInt 109, PInt 110, PInt 111, PInt 112, PInt 113, PInt 114, PInt 115, PInt 116, PInt 117, PInt 118, PInt 119, PInt 120] \<and>
   requested (snd (main
        \<lparr>read_csv = Frame [(''name'', []), (''id'', [PInt 100, PInt 101, PInt 102, PInt 103, PInt 104, PInt 105, PInt 106, PInt 107, PInt 108, PInt 109, PInt 110, PInt 111, PInt 112, PInt 113, PInt 114, PInt 115, PInt 116, PInt 117, PInt 118, PInt 119, PInt 120])],
         get_json = (\<lambda>n url. Some (PDict [])),
         url_content = (\<lambda>n url. NoAnswer), open_file = (\<lambda>n f. True),
         convert_column = (\<lambda>values i. values ! i), to_csv = (\<lambda>t. Written),
         repr = (\<lambda>v. [])\<rparr> fresh_state)) =
     [''https://www.inaturalist.org/observations/110.json'',
      ''https://www.inaturalist.org/observations/111.json'',
      ''https://www.inaturalist.org/observations/112.json'',
      ''https://www.inaturalist.org/observations/113.json'',
      ''https://www.inaturalist.org/observations/114.json'',
      ''https://www.inaturalist.org/observations/115.json'',
      ''https://www.inaturalist.org/observations/116.json'',
      ''https://www.inaturalist.org/observations/117.json'',
      ''https://www.inaturalist.org/observations/118.json'',
      ''https://www.inaturalist.org/observations/119.json'']"
proof -
  let ?E = "\<lparr>read_csv = Frame [(''name'', []), (''id'', [PInt 100, PInt 101, PInt 102, PInt 103, PInt 104, PInt 105, PInt 106, PInt 107, PInt 108, PInt 109, PInt 110, PInt 111, PInt 112, PInt 113, PInt 114, PInt 115, PInt 116, PInt 117, PInt 118, PInt 119, PInt 120])],
         get_json = (\<lambda>n url. Some (PDict [])),
         url_content = (\<lambda>n url. NoAnswer), open_file = (\<lambda>n f. True),
         convert_column = (\<lambda>values i. values ! i), to_csv = (\<lambda>t. Written),
         repr = (\<lambda>v. [])\<rparr>"
  have ret: "\<exists>images. fst (retrieve_photo_data ?E [PInt 100, PInt 101, PInt 102, PInt 103, PInt 104, PInt 105, PInt 106, PInt 107, PInt 108, PInt 109, PInt 110, PInt 111, PInt 112, PInt 113, PInt 114, PInt 115, PInt 116, PInt 117, PInt 118, PInt 119, PInt 120] fresh_state) = Return images"
    by (simp add: retrieve_photo_data_def slice_10_20_def fetch_observation_def Let_def
          dict_get_def)
  from requests_for_positions_10_to_19 [where env = ?E and obs_ids = "[PInt 100, PInt 101, PInt 102, PInt 103, PInt 104, PInt 105, PInt 106, PInt 107, PInt 108, PInt 109, PInt 110, PInt 111, PInt 112, PInt 113, PInt 114, PInt 115, PInt 116, PInt 117, PInt 118, PInt 119, PInt 120]"
      and cols = "[(''name'', []), (''id'', [PInt 100, PInt 101, PInt 102, PInt 103, PInt 104, PInt 105, PInt 106, PInt 107, PInt 108, PInt 109, PInt 110, PInt 111, PInt 112, PInt 113, PInt 114, PInt 115, PInt 116, PInt 117, PInt 118, PInt 119, PInt 120])]" and st = fresh_state] ret
  show ?thesis
    by (simp add: observation_url_def str_int_def fresh_state_def str_nat_digit str_nat_more
          upt_rec)
qed

section \<open>The missing input file\<close>

text \<open>
  C5: when \<^verbatim>\<open>observations.csv\<close> is absent, the run prints the line that starts with
  \<^verbatim>\<open>Could not find observations.csv\<close> and exits at once: nothing else of the state
  changes, so no URL is requested or retrieved, \<^verbatim>\<open>image_metadata.csv\<close> is not
  written and \<^verbatim>\<open>images\<close> is not created.
\<close>

theorem missing_input_file:
  assumes "read_csv env = FileNotFound"
  shows "main env st =
           (Exited, st\<lparr>stdout := stdout st @
              [''Could not find observations.csv. Program is now quitting.'']\<rparr>) \<and>
         prefix ''Could not find observations.csv''
           ''Could not find observations.csv. Program is now quitting.'' \<and>
         requested (snd (main env st)) = requested st \<and>
         retrieved (snd (main env st)) = retrieved st \<and>
         metadata_csv (snd (main env st)) = metadata_csv st \<and>
         images_dir (snd (main env st)) = images_dir st \<and>
         image_files (snd (main env st)) = image_files st"
  using assms by (simp add: main_def load_observations_def print_def)

theorem missing_input_file_witness:
  "main \<lparr>read_csv = FileNotFound, get_json = (\<lambda>n url. Some (PDict [])),
         url_content = (\<lambda>n url. Content ''JPEG''), open_file = (\<lambda>n f. True),
         convert_column = (\<lambda>values i. values ! i), to_csv = (\<lambda>t. Written),
         repr = (\<lambda>v. [])\<rparr> fresh_state =
     (Exited, fresh_state\<lparr>stdout :=
        [''Could not find observations.csv. Program is now quitting.'']\<rparr>) \<and>
   metadata_csv (snd (main \<lparr>read_csv = FileNotFound, get_json = (\<lambda>n url. Some (PDict [])),
         url_content = (\<lambda>n url. Content ''JPEG''), open_file = (\<lambda>n f. True),
         convert_column = (\<lambda>values i. values ! i), to_csv = (\<lambda>t. Written),
         repr = (\<lambda>v. [])\<rparr> fresh_state)) = NoFile \<and>
   images_dir (snd (main \<lparr>read_csv = FileNotFound, get_json = (\<lambda>n url. Some (PDict [])),
         url_content = (\<lambda>n url. Content ''JPEG''), open_file = (\<lambda>n f. True),
         convert_column = (\<lambda>values i. values ! i), to_csv = (\<lambda>t. Written),
         repr = (\<lambda>v. [])\<rparr> fresh_state)) = Absent"
  using missing_input_file [of "\<lparr>read_csv = FileNotFound, get_json = (\<lambda>n url. Some (PDict [])),
         url_content = (\<lambda>n url. Content ''JPEG''), open_file = (\<lambda>n f. True),
         convert_column = (\<lambda>values i. values ! i), to_csv = (\<lambda>t. Written),
         repr = (\<lambda>v. [])\<rparr>" fresh_state]
  by (simp add: fresh_state_def)

section \<open>The exported table\<close>

text \<open>
  C3 as stated fails: the API entry \<^verbatim>\<open>{}\<close> gives a record with the two fields
  \<^verbatim>\<open>observation_id\<close> and \<^verbatim>\<open>original_size_url\<close> only; the sequence of this one
  record is not empty, and its export raises KeyError and writes no table.
\<close>

theorem export_fails_without_fields:
  "photo_data (PDict []) = Inr [(''observation_id'', PNone), (''original_size_url'', PStr '''')] \<and>
   [[(''observation_id'', PNone), (''original_size_url'', PStr '''')]] \<noteq> [] \<and>
   fst (export_metadata sample_env
          [[(''observation_id'', PNone), (''original_size_url'', PStr '''')]]
          fresh_state) = Raised KeyError \<and>
   metadata_csv (snd (export_metadata sample_env
          [[(''observation_id'', PNone), (''original_size_url'', PStr '''')]] fresh_state)) =
     NoFile"
  by (simp add: export_metadata_eq Let_def keep_columns_def print_def fresh_state_def
        photo_data_def dict_get_def)

text \<open>
  C3, amended: when every field of the allow-list is a key of at least one record, the
  projection succeeds, and the table handed to \<^verbatim>\<open>to_csv\<close> has exactly the 15 columns
  \<^verbatim>\<open>observation_id, photo_id, created_at, updated_at, inaturalist_page_url,
  inaturalist_username, license, subtype, original_image_url, license_code, attribution,
  license_name, license_url, type, image_url\<close> in this order and one row of 15 cells for
  each record, whatever other fields the records have. The export returns exactly when
  \<^verbatim>\<open>to_csv\<close> writes this table, which is then the exported one; otherwise
  \<^verbatim>\<open>to_csv\<close> has raised. In a run whose fetcher has accumulated such a sequence,
  the table that \<^verbatim>\<open>to_csv\<close> has written is the metadata table at the end of the run.
\<close>

theorem exported_columns:
  assumes "list_all (\<lambda>c. list_ex (\<lambda>r. map_of r c \<noteq> None) images) keep_columns"
  shows "\<exists>t. columns t =
               [''observation_id'', ''photo_id'', ''created_at'', ''updated_at'',
                ''inaturalist_page_url'', ''inaturalist_username'', ''license'', ''subtype'',
                ''original_image_url'', ''license_code'', ''attribution'', ''license_name'',
                ''license_url'', ''type'', ''image_url''] \<and>
             length (columns t) = 15 \<and>
             length (rows t) = length images \<and>
             list_all (\<lambda>row. length row = 15) (rows t) \<and>
             (fst (export_metadata env images st) = Return ()) = (to_csv env t = Written) \<and>
             (to_csv env t = Written \<longrightarrow>
                metadata_csv (snd (export_metadata env images st)) = Saved t) \<and>
             (to_csv env t \<noteq> Written \<longrightarrow>
                fst (export_metadata env images st) = Raised WriteError) \<and>
             (read_csv env = Frame cols \<and> map_of cols ''id'' = Some obs_ids \<and>
              fst (retrieve_photo_data env obs_ids st0) = Return images \<and>
              to_csv env t = Written \<longrightarrow>
                metadata_csv (snd (main env st0)) = Saved t)"
proof -
  let ?t = "\<lparr>columns = map (\<lambda>c. case map_of rename_columns c of Some n \<Rightarrow> n | None \<Rightarrow> c)
                            keep_columns,
               rows = map (\<lambda>i. map (\<lambda>c. convert_column env (column_values images c) i)
                                 keep_columns) [0..<length images]\<rparr>"
  have c: "columns ?t =
               [''observation_id'', ''photo_id'', ''created_at'', ''updated_at'',
                ''inaturalist_page_url'', ''inaturalist_username'', ''license'', ''subtype'',
                ''original_image_url'', ''license_code'', ''attribution'', ''license_name'',
                ''license_url'', ''type'', ''image_url'']"
    by (simp add: renamed_keep_columns)
  have l: "length (columns ?t) = 15" unfolding c by simp
  have r: "length (rows ?t) = length images" by simp
  have k: "length keep_columns = 15" by (simp add: keep_columns_def)
  have w: "list_all (\<lambda>row. length row = 15) (rows ?t)"
    by (simp add: list_all_iff k)
  have e: "(fst (export_metadata env images s) = Return ()) = (to_csv env ?t = Written)"
    "to_csv env ?t = Written \<longrightarrow>
       metadata_csv (snd (export_metadata env images s)) = Saved ?t"
    "to_csv env ?t \<noteq> Written \<longrightarrow> fst (export_metadata env images s) = Raised WriteError"
    for s
    using assms
    by (simp_all add: export_metadata_eq Let_def split: write_outcome.splits)
  have m: "metadata_csv (snd (main env st0)) = Saved ?t"
    if "read_csv env = Frame cols \<and> map_of cols ''id'' = Some obs_ids \<and>
        fst (retrieve_photo_data env obs_ids st0) = Return images \<and> to_csv env ?t = Written"
  proof -
    let ?s = "snd (retrieve_photo_data env obs_ids st0)"
    from that have f: "read_csv env = Frame cols" "map_of cols ''id'' = Some obs_ids"
      "fst (retrieve_photo_data env obs_ids st0) = Return images"
      and tw: "to_csv env ?t = Written" by simp_all
    from e(1) [of ?s] tw have x: "fst (export_metadata env images ?s) = Return ()" by simp
    from e(2) [of ?s] tw have "metadata_csv (snd (export_metadata env images ?s)) = Saved ?t"
      by simp
    with download_images_frame [of env images "snd (export_metadata env images ?s)"]
    show ?thesis
      unfolding main_fetched [OF f] export_and_download_exported [OF x] by simp
  qed
  from c l r w e [of st] m show ?thesis by blast
qed

theorem exported_columns_witness:
  "list_all (\<lambda>c. list_ex (\<lambda>r. map_of r c \<noteq> None) sample_images) keep_columns \<and>
   map_of (sample_images ! 0) ''large_url'' \<noteq> None \<and>
   fst (export_metadata sample_env sample_images fresh_state) = Return () \<and>
   (\<exists>t. metadata_csv (snd (export_metadata sample_env sample_images fresh_state)) = Saved t \<and>
        metadata_csv (snd (main sample_env fresh_state)) = Saved t \<and>
        columns t =
          [''observation_id'', ''photo_id'', ''created_at'', ''updated_at'',
           ''inaturalist_page_url'', ''inaturalist_username'', ''license'', ''subtype'',
           ''original_image_url'', ''license_code'', ''attribution'', ''license_name'',
           ''license_url'', ''type'', ''image_url''] \<and>
        length (rows t) = 3)"
proof -
  from exported_columns [OF sample_has_all_fields, of sample_env fresh_state
      "[(''observed_on'', []), (''id'', sample_ids)]" sample_ids fresh_state]
  obtain t where t: "columns t =
          [''observation_id'', ''photo_id'', ''created_at'', ''updated_at'',
           ''inaturalist_page_url'', ''inaturalist_username'', ''license'', ''subtype'',
           ''original_image_url'', ''license_code'', ''attribution'', ''license_name'',
           ''license_url'', ''type'', ''image_url'']"
    "length (rows t) = length sample_images"
    "(fst (export_metadata sample_env sample_images fresh_state) = Return ()) =
       (to_csv sample_env t = Written)"
    "to_csv sample_env t = Written \<longrightarrow>
       metadata_csv (snd (export_metadata sample_env sample_images fresh_state)) = Saved t"
    "read_csv sample_env = Frame [(''observed_on'', []), (''id'', sample_ids)] \<and>
     map_of [(''observed_on'', []), (''id'', sample_ids)] ''id'' = Some sample_ids \<and>
     fst (retrieve_photo_data sample_env sample_ids fresh_state) = Return sample_images \<and>
     to_csv sample_env t = Written \<longrightarrow>
       metadata_csv (snd (main sample_env fresh_state)) = Saved t"
    by blast
  have w: "to_csv sample_env t = Written" by (simp add: sample_env_def)
  have x: "map_of (sample_images ! 0) ''large_url'' \<noteq> None"
    by (simp add: sample_images_def sample_record_def sample_fields_def)
  have n: "length sample_images = 3" by (simp add: sample_images_def)
  from t(5) w sample_frame sample_fetch
  have m: "metadata_csv (snd (main sample_env fresh_state)) = Saved t" by blast
  from t(1-4) w x n m sample_has_all_fields show ?thesis by auto
qed

text \<open>
  C4 as stated fails: of two records, the first has every field of the allow-list and the
  second lacks \<^verbatim>\<open>license\<close>; the export returns.
\<close>

theorem export_fills_missing_field:
  "fst (export_metadata sample_env
          [sample_record 1 2 [(''original_size_url'', PStr ''https://x/original.jpg'')],
           (''observation_id'', PInt 3) # (''id'', PInt 4) # sample_fields @
             [(''original_size_url'', PStr '''')]]
          fresh_state) = Return () \<and>
   map_of ((''observation_id'', PInt 3) # (''id'', PInt 4) # sample_fields @
             [(''original_size_url'', PStr '''')]) ''license'' = None \<and>
   map_of (sample_record 1 2 [(''original_size_url'', PStr ''https://x/original.jpg'')])
     ''license'' = Some (PStr ''cc'')"
  by (simp add: export_metadata_eq Let_def keep_columns_def sample_record_def sample_fields_def
        sample_env_def)

text \<open>
  C4, amended: the projection raises KeyError exactly when some field of the allow-list is a
  key of no record of the sequence (so always for the empty sequence). A record that lacks
  a field which another record has does not make it fail: when every field occurs in some
  record, the only error left is one of \<^verbatim>\<open>to_csv\<close>, and an export that returns has
  written a table with one row for every record. A run whose fetcher has accumulated the
  sequence ends with KeyError in exactly the same case.
\<close>

theorem export_fails_iff_field_in_no_record:
  "(fst (export_metadata env images st) = Raised KeyError) =
     list_ex (\<lambda>c. list_all (\<lambda>r. map_of r c = None) images) keep_columns \<and>
   (fst (export_metadata env images st) = Return () \<longrightarrow>
      list_all (\<lambda>c. list_ex (\<lambda>r. map_of r c \<noteq> None) images) keep_columns \<and>
      (\<exists>t. metadata_csv (snd (export_metadata env images st)) = Saved t \<and>
           to_csv env t = Written \<and> length (rows t) = length images)) \<and>
   (list_all (\<lambda>c. list_ex (\<lambda>r. map_of r c \<noteq> None) images) keep_columns \<longrightarrow>
      fst (export_metadata env images st) = Return () \<or>
      fst (export_metadata env images st) = Raised WriteError) \<and>
   (read_csv env = Frame cols \<and> map_of cols ''id'' = Some obs_ids \<and>
    fst (retrieve_photo_data env obs_ids st0) = Return images \<longrightarrow>
      (fst (main env st0) = Raised KeyError) =
        list_ex (\<lambda>c. list_all (\<lambda>r. map_of r c = None) images) keep_columns)"
proof (intro conjI impI)
  show k: "(fst (export_metadata env images s) = Raised KeyError) =
     list_ex (\<lambda>c. list_all (\<lambda>r. map_of r c = None) images) keep_columns" for s
    by (auto simp: export_metadata_eq Let_def list_all_iff list_ex_iff
          split: write_outcome.splits)
  assume "read_csv env = Frame cols \<and> map_of cols ''id'' = Some obs_ids \<and>
    fst (retrieve_photo_data env obs_ids st0) = Return images"
  then have f: "read_csv env = Frame cols" "map_of cols ''id'' = Some obs_ids"
      "fst (retrieve_photo_data env obs_ids st0) = Return images" by simp_all
  let ?s = "snd (retrieve_photo_data env obs_ids st0)"
  show "(fst (main env st0) = Raised KeyError) =
        list_ex (\<lambda>c. list_all (\<lambda>r. map_of r c = None) images) keep_columns"
  proof (cases "fst (export_metadata env images ?s) = Return ()")
    case True
    then have "fst (export_metadata env images ?s) \<noteq> Raised KeyError" by simp
    with k [of ?s]
    have n: "\<not> list_ex (\<lambda>c. list_all (\<lambda>r. map_of r c = None) images) keep_columns" by simp
    have "fst (main env st0) \<noteq> Raised KeyError"
      unfolding main_fetched [OF f] export_and_download_exported [OF True]
      using download_images_errors [of env images "snd (export_metadata env images ?s)" KeyError]
      by auto
    with n show ?thesis by simp
  next
    case False
    show ?thesis
      unfolding main_fetched [OF f] export_and_download_not_exported [OF False]
      by (rule k)
  qed
next
  assume r: "fst (export_metadata env images st) = Return ()"
  then show a: "list_all (\<lambda>c. list_ex (\<lambda>r. map_of r c \<noteq> None) images) keep_columns"
    by (auto simp: export_metadata_eq Let_def split: write_outcome.splits if_splits)
  from r a show "\<exists>t. metadata_csv (snd (export_metadata env images st)) = Saved t \<and>
           to_csv env t = Written \<and> length (rows t) = length images"
    by (auto simp: export_metadata_eq Let_def split: write_outcome.splits)
next
  assume "list_all (\<lambda>c. list_ex (\<lambda>r. map_of r c \<noteq> None) images) keep_columns"
  then show "fst (export_metadata env images st) = Return () \<or>
      fst (export_metadata env images st) = Raised WriteError"
    by (simp add: export_metadata_eq Let_def split: write_outcome.splits)
qed

theorem export_fails_iff_field_in_no_record_witness:
  "fst (export_metadata sample_env
          [sample_record 1 2 [(''original_size_url'', PStr ''https://x/original.jpg'')],
           (''observation_id'', PInt 3) # (''id'', PInt 4) # sample_fields @
             [(''original_size_url'', PStr '''')]]
          fresh_state) = Return () \<and>
   (\<exists>t. metadata_csv (snd (export_metadata sample_env
          [sample_record 1 2 [(''original_size_url'', PStr ''https://x/original.jpg'')],
           (''observation_id'', PInt 3) # (''id'', PInt 4) # sample_fields @
             [(''original_size_url'', PStr '''')]]
          fresh_state)) = Saved t \<and> length (rows t) = 2) \<and>
   fst (export_metadata sample_env [] fresh_state) = Raised KeyError \<and>
   read_csv sample_env = Frame [(''observed_on'', []), (''id'', sample_ids)] \<and>
   fst (retrieve_photo_data sample_env sample_ids fresh_state) = Return sample_images \<and>
   fst (main sample_env fresh_state) \<noteq> Raised KeyError"
proof -
  let ?images = "[sample_record 1 2 [(''original_size_url'', PStr ''https://x/original.jpg'')],
           (''observation_id'', PInt 3) # (''id'', PInt 4) # sample_fields @
             [(''original_size_url'', PStr '''')]]"
  have all: "list_all (\<lambda>c. list_ex (\<lambda>r. map_of r c \<noteq> None) ?images) keep_columns"
    by (simp add: keep_columns_def sample_record_def sample_fields_def)
  note t = export_fails_iff_field_in_no_record [of sample_env ?images fresh_state]
  have "fst (export_metadata sample_env ?images fresh_state) \<noteq> Raised WriteError"
    using all by (simp add: export_metadata_eq Let_def sample_env_def)
  with t all have ok: "fst (export_metadata sample_env ?images fresh_state) = Return ()"
    by blast
  with t obtain t' where "metadata_csv (snd (export_metadata sample_env ?images fresh_state)) =
      Saved t'" "length (rows t') = length ?images"
    by blast
  then have saved: "\<exists>t. metadata_csv (snd (export_metadata sample_env ?images fresh_state)) =
      Saved t \<and> length (rows t) = 2" by auto
  from export_fails_iff_field_in_no_record [of sample_env "[]" fresh_state]
  have empty: "fst (export_metadata sample_env [] fresh_state) = Raised KeyError"
    by (simp add: keep_columns_def)
  have "\<not> list_ex (\<lambda>c. list_all (\<lambda>r. map_of r c = None) sample_images) keep_columns"
    using sample_has_all_fields by (auto simp: list_all_iff list_ex_iff)
  with export_fails_iff_field_in_no_record [of sample_env sample_images fresh_state
      "[(''observed_on'', []), (''id'', sample_ids)]" sample_ids fresh_state]
    sample_frame sample_fetch
  have run: "fst (main sample_env fresh_state) \<noteq> Raised KeyError" by simp
  from ok saved empty run sample_frame sample_fetch show ?thesis by simp
qed

section \<open>The downloaded files\<close>

text \<open>
  C6: let \<open>images\<close> be the sequence the fetcher has accumulated in a run. The calls of
  \<^verbatim>\<open>urlretrieve\<close> in the run are those of the records whose \<^verbatim>\<open>original_size_url\<close> is
  a non-empty string, in the order of the sequence, each with this URL and the path
  \<^verbatim>\<open>images/observation{observation_id}_image{id}.jpg\<close> built from the record's own
  \<^verbatim>\<open>observation_id\<close> and \<^verbatim>\<open>id\<close>: all of them when the run returns, and those of the
  first \<open>k\<close> records when it stops early. When the run returns, the file at the path of
  such a record holds the content fetched from its URL (that of the last record, when
  several have the same path), and every path that is not the path of such a record is
  as it was before: a record with an empty or absent URL produces no file. The test
  \<^verbatim>\<open>if image_url\<close> of the script holds for a record exactly when its URL is a
  non-empty string.
\<close>

theorem download_per_record:
  assumes "read_csv env = Frame cols" and "map_of cols ''id'' = Some obs_ids"
    and "fst (retrieve_photo_data env obs_ids st) = Return images"
  shows "(\<exists>k\<le>length images.
            retrieved (snd (main env st)) =
              retrieved st @
              map (\<lambda>img. (url_text (image_url img), image_name (repr env) img))
                (filter has_url (take k images)) \<and>
            (fst (main env st) = Return () \<longrightarrow> k = length images)) \<and>
         (fst (main env st) = Return () \<and> filter has_url images = pre @ img # post \<and>
          image_name (repr env) img \<notin> image_name (repr env) ` set post \<longrightarrow>
            (\<exists>content.
               url_content env (length (retrieved st) + length pre) (url_text (image_url img)) =
                 Content content \<and>
               image_files (snd (main env st)) (image_name (repr env) img) = Some content)) \<and>
         (fst (main env st) = Return () \<and>
          p \<notin> image_name (repr env) ` set (filter has_url images) \<longrightarrow>
            image_files (snd (main env st)) p = image_files st p) \<and>
         list_all (\<lambda>img. truthy (image_url img) = has_url img) images \<and>
         (map_of r ''observation_id'' = Some oid \<and> map_of r ''id'' = Some pid \<longrightarrow>
            image_name (repr env) r =
              ''images/observation'' @ py_str (repr env) oid @ ''_image'' @
              py_str (repr env) pid @ ''.jpg'')"
proof -
  let ?F = "retrieve_photo_data env obs_ids st"
  let ?E = "export_metadata env images (snd ?F)"
  let ?call = "\<lambda>img. (url_text (image_url img), image_name (repr env) img)"
  note main = main_fetched [OF assms]
  note b = before_download [of env images obs_ids st]
  have trace: "\<exists>k\<le>length images.
            retrieved (snd (main env st)) =
              retrieved st @ map ?call (filter has_url (take k images)) \<and>
            (fst (main env st) = Return () \<longrightarrow> k = length images)"
  proof (cases "fst ?E = Return ()")
    case True
    from download_images_progress [of images env "snd ?E"] b
    show ?thesis
      unfolding main export_and_download_exported [OF True] by auto
  next
    case False
    have "0 \<le> length images \<and>
        retrieved (snd (main env st)) =
          retrieved st @ map ?call (filter has_url (take 0 images)) \<and>
        (fst (main env st) = Return () \<longrightarrow> 0 = length images)"
      unfolding main export_and_download_not_exported [OF False] using b False by simp
    then show ?thesis by blast
  qed
  have ret: "fst ?E = Return ()" if "fst (main env st) = Return ()"
  proof (rule ccontr)
    assume n: "fst ?E \<noteq> Return ()"
    from that show False
      unfolding main export_and_download_not_exported [OF n] using n by simp
  qed
  have last: "\<exists>content.
               url_content env (length (retrieved st) + length pre) (url_text (image_url img)) =
                 Content content \<and>
               image_files (snd (main env st)) (image_name (repr env) img) = Some content"
    if "fst (main env st) = Return () \<and> filter has_url images = pre @ img # post \<and>
          image_name (repr env) img \<notin> image_name (repr env) ` set post"
  proof -
    from that have r: "fst (main env st) = Return ()"
      and f: "filter has_url images = pre @ img # post"
      and n: "image_name (repr env) img \<notin> image_name (repr env) ` set post" by simp_all
    note e = ret [OF r]
    from r have "fst (download_images env images (snd ?E)) = Return ()"
      unfolding main export_and_download_exported [OF e] .
    from download_images_files_last [OF this f n] b show ?thesis
      unfolding main export_and_download_exported [OF e] by simp
  qed
  have other: "image_files (snd (main env st)) p = image_files st p"
    if "fst (main env st) = Return () \<and>
          p \<notin> image_name (repr env) ` set (filter has_url images)"
  proof -
    from that have r: "fst (main env st) = Return ()"
      and n: "p \<notin> image_name (repr env) ` set (filter has_url images)" by simp_all
    note e = ret [OF r]
    from r have "fst (download_images env images (snd ?E)) = Return ()"
      unfolding main export_and_download_exported [OF e] .
    from download_images_files_other [OF this n] b show ?thesis
      unfolding main export_and_download_exported [OF e] by simp
  qed
  have urls: "list_all (\<lambda>img. truthy (image_url img) = has_url img) images"
    using fetched_string_url [OF assms(3)] has_url_truthy by (auto simp: list_all_iff)
  have name: "image_name (repr env) r =
              ''images/observation'' @ py_str (repr env) oid @ ''_image'' @
              py_str (repr env) pid @ ''.jpg''"
    if "map_of r ''observation_id'' = Some oid \<and> map_of r ''id'' = Some pid"
    using that by (simp add: image_name_def dict_get_def)
  from trace last other urls name show ?thesis by blast
qed

theorem download_per_record_witness:
  "fst (main sample_env fresh_state) = Return () \<and>
   retrieved (snd (main sample_env fresh_state)) =
     [(''https://x/original.jpg'', ''images/observation110_image1.jpg''),
      (''https://y/original.jpg'', ''images/observation115_image3.jpg'')] \<and>
   image_files (snd (main sample_env fresh_state)) ''images/observation110_image1.jpg'' =
     Some ''image at https://x/original.jpg'' \<and>
   image_files (snd (main sample_env fresh_state)) ''images/observation110_image2.jpg'' = None"
proof -
  have r: "fst (main sample_env fresh_state) = Return ()"
    by (rule sample_returns) (simp add: fresh_state_def)
  note t = download_per_record [OF sample_frame sample_fetch,
      where st = fresh_state and pre = "[]" and img = "sample_images ! 0"
        and post = "[sample_images ! 2]" and p = "''images/observation110_image2.jpg''"]
  from t r obtain k where k: "k = length sample_images"
    "retrieved (snd (main sample_env fresh_state)) =
       retrieved fresh_state @
       map (\<lambda>img. (url_text (image_url img), image_name (repr sample_env) img))
         (filter has_url (take k sample_images))"
    by blast
  have calls: "retrieved (snd (main sample_env fresh_state)) =
     [(''https://x/original.jpg'', ''images/observation110_image1.jpg''),
      (''https://y/original.jpg'', ''images/observation115_image3.jpg'')]"
    unfolding k by (simp add: sample_has_url sample_names sample_urls fresh_state_def)
  from t r sample_decomposition obtain content where
    "url_content sample_env (length (retrieved fresh_state) + length ([] :: pydict list))
       (url_text (image_url (sample_images ! 0))) = Content content"
    "image_files (snd (main sample_env fresh_state))
       (image_name (repr sample_env) (sample_images ! 0)) = Some content"
    by blast
  then have first: "image_files (snd (main sample_env fresh_state))
      ''images/observation110_image1.jpg'' = Some ''image at https://x/original.jpg''"
    by (simp add: sample_env_fields(2) sample_urls sample_names)
  from t r sample_decomposition
  have "image_files (snd (main sample_env fresh_state)) ''images/observation110_image2.jpg'' =
      image_files fresh_state ''images/observation110_image2.jpg''"
    by blast
  then have second: "image_files (snd (main sample_env fresh_state))
      ''images/observation110_image2.jpg'' = None"
    by (simp add: fresh_state_def)
  from r calls first second show ?thesis by simp
qed

text \<open>
  C7: a run that finds \<^verbatim>\<open>images\<close> there as a directory, and gets as far as the
  download, prints \<^verbatim>\<open>Images directory already exists.\<close> and goes on with the
  download, the directory staying what it is; the run returns when every URL can be
  fetched and every file opened; and when it returns, a file that was there under the
  path of a record with a URL holds the content fetched for that record, not its old
  content.
\<close>

theorem rerun_with_existing_directory:
  assumes "read_csv env = Frame cols" and "map_of cols ''id'' = Some obs_ids"
    and "fst (retrieve_photo_data env obs_ids st) = Return images"
    and "fst (export_metadata env images (snd (retrieve_photo_data env obs_ids st))) = Return ()"
    and "images_dir st = Directory"
  shows "(\<exists>lines. stdout (snd (main env st)) =
            stdout st @
            [''Retrieving photo data for '' @ str_nat (length obs_ids) @ '' observations'',
             ''Data retrieved for '' @ str_nat (length images) @
             '' photos. Exporting to image_metadata.csv'',
             ''Images directory already exists.'',
             ''Retrieving '' @ str_nat (length images) @ '' images''] @ lines) \<and>
         images_dir (snd (main env st)) = Directory \<and>
         ((\<forall>k u. \<exists>content. url_content env k u = Content content) \<and>
          (\<forall>k f. open_file env k f) \<longrightarrow> fst (main env st) = Return ()) \<and>
         (fst (main env st) = Return () \<and> filter has_url images = pre @ img # post \<and>
          image_name (repr env) img \<notin> image_name (repr env) ` set post \<and>
          image_files st (image_name (repr env) img) = Some old \<longrightarrow>
            (\<exists>content.
               url_content env (length (retrieved st) + length pre) (url_text (image_url img)) =
                 Content content \<and>
               image_files (snd (main env st)) (image_name (repr env) img) = Some content))"
proof -
  let ?F = "retrieve_photo_data env obs_ids st"
  let ?E = "export_metadata env images (snd ?F)"
  have main: "main env st = download_images env images (snd ?E)"
    unfolding main_fetched [OF assms(1,2,3)] export_and_download_exported [OF assms(4)] ..
  note b = before_download [of env images obs_ids st]
  from b assms(5) have d: "images_dir (snd ?E) = Directory" by simp
  from download_images_frame [of env images "snd ?E"] b d
  have log: "\<exists>lines. stdout (snd (main env st)) =
            stdout st @
            [''Retrieving photo data for '' @ str_nat (length obs_ids) @ '' observations'',
             ''Data retrieved for '' @ str_nat (length images) @
             '' photos. Exporting to image_metadata.csv'',
             ''Images directory already exists.'',
             ''Retrieving '' @ str_nat (length images) @ '' images''] @ lines"
    and dir: "images_dir (snd (main env st)) = Directory"
    unfolding main by auto
  have ok: "fst (main env st) = Return ()"
    if "(\<forall>k u. \<exists>content. url_content env k u = Content content) \<and> (\<forall>k f. open_file env k f)"
  proof -
    from that have u: "\<And>k u. \<exists>content. url_content env k u = Content content"
      and o: "\<And>k f. open_file env k f" by simp_all
    from d have "images_dir (snd ?E) \<noteq> RegularFile" by simp
    from download_images_succeeds [OF fetched_string_url [OF assms(3)] this u o]
    show ?thesis unfolding main by simp
  qed
  have over: "\<exists>content.
               url_content env (length (retrieved st) + length pre) (url_text (image_url img)) =
                 Content content \<and>
               image_files (snd (main env st)) (image_name (repr env) img) = Some content"
    if "fst (main env st) = Return () \<and> filter has_url images = pre @ img # post \<and>
          image_name (repr env) img \<notin> image_name (repr env) ` set post \<and>
          image_files st (image_name (repr env) img) = Some old"
  proof -
    from that have r: "fst (download_images env images (snd ?E)) = Return ()"
      and f: "filter has_url images = pre @ img # post"
      and n: "image_name (repr env) img \<notin> image_name (repr env) ` set post"
      unfolding main by simp_all
    from download_images_files_last [OF r f n] b show ?thesis unfolding main by simp
  qed
  from log dir ok over show ?thesis by blast
qed

theorem rerun_with_existing_directory_witness:
  "image_files (fresh_state\<lparr>images_dir := Directory,
      image_files := [''images/observation110_image1.jpg'' \<mapsto> ''OLD'']\<rparr>)
     ''images/observation110_image1.jpg'' = Some ''OLD'' \<and>
   fst (main sample_env (fresh_state\<lparr>images_dir := Directory,
      image_files := [''images/observation110_image1.jpg'' \<mapsto> ''OLD'']\<rparr>)) = Return () \<and>
   take 4 (stdout (snd (main sample_env (fresh_state\<lparr>images_dir := Directory,
      image_files := [''images/observation110_image1.jpg'' \<mapsto> ''OLD'']\<rparr>)))) =
     [''Retrieving photo data for 21 observations'',
      ''Data retrieved for 3 photos. Exporting to image_metadata.csv'',
      ''Images directory already exists.'',
      ''Retrieving 3 images''] \<and>
   image_files (snd (main sample_env (fresh_state\<lparr>images_dir := Directory,
      image_files := [''images/observation110_image1.jpg'' \<mapsto> ''OLD'']\<rparr>)))
     ''images/observation110_image1.jpg'' = Some ''image at https://x/original.jpg''"
proof -
  define S where "S = fresh_state\<lparr>images_dir := Directory,
      image_files := [''images/observation110_image1.jpg'' \<mapsto> ''OLD'']\<rparr>"
  have d: "images_dir S = Directory" by (simp add: S_def)
  have old: "image_files S (image_name (repr sample_env) (sample_images ! 0)) = Some ''OLD''"
    by (simp add: S_def sample_names)
  have S: "stdout S = []" "retrieved S = []" by (simp_all add: S_def fresh_state_def)
  note t = rerun_with_existing_directory [OF sample_frame sample_fetch sample_export d,
      where pre = "[]" and img = "sample_images ! 0" and post = "[sample_images ! 2]"
        and old = "''OLD''"]
  have env: "(\<forall>k u. \<exists>content. url_content sample_env k u = Content content) \<and>
      (\<forall>k f. open_file sample_env k f)"
    by (simp add: sample_env_fields)
  from t env have r: "fst (main sample_env S) = Return ()" by blast
  from t obtain lines where "stdout (snd (main sample_env S)) =
      stdout S @
      [''Retrieving photo data for '' @ str_nat (length sample_ids) @ '' observations'',
       ''Data retrieved for '' @ str_nat (length sample_images) @
       '' photos. Exporting to image_metadata.csv'',
       ''Images directory already exists.'',
       ''Retrieving '' @ str_nat (length sample_images) @ '' images''] @ lines"
    by blast
  then have log: "take 4 (stdout (snd (main sample_env S))) =
     [''Retrieving photo data for 21 observations'',
      ''Data retrieved for 3 photos. Exporting to image_metadata.csv'',
      ''Images directory already exists.'',
      ''Retrieving 3 images'']"
    by (simp add: S sample_ids_def sample_images_def str_nat_digit str_nat_more)
  from t r sample_decomposition old obtain content where
    "url_content sample_env (length (retrieved S) + length ([] :: pydict list))
       (url_text (image_url (sample_images ! 0))) = Content content"
    "image_files (snd (main sample_env S))
       (image_name (repr sample_env) (sample_images ! 0)) = Some content"
    by blast
  then have new: "image_files (snd (main sample_env S)) ''images/observation110_image1.jpg'' =
      Some ''image at https://x/original.jpg''"
    by (simp add: sample_env_fields(2) sample_urls sample_names)
  have "image_files S ''images/observation110_image1.jpg'' = Some ''OLD''"
    by (simp add: S_def)
  with r log new show ?thesis unfolding S_def by simp
qed

section \<open>The two walks over the records\<close>



end
